theory Spec2Isabelle
  imports
    Complex_Main
    "HOL-Library.Char_ord"
    "HOL-Library.List_Lexorder"
    "HOL-Library.Product_Lexorder"
    "HOL-Library.Multiset"
begin

section \<open>The expense store of \<^verbatim>\<open>main.py\<close>\<close>

text \<open>
  \<^verbatim>\<open>main.py\<close> is a thin layer of Python over one SQLite file: every tool opens a
  connection, runs one SQL statement and turns any exception into a payload. The
  embedding therefore gives the SQL statements of the source their meaning on an
  explicit database value, and threads that value through the tools.

  \<^item> A Python \<^verbatim>\<open>str\<close> is a \<^typ>\<open>string\<close>. The order on strings is the lexicographic
    order of the character codes, which is how SQLite's default collation compares
    \<^verbatim>\<open>TEXT\<close> values.
  \<^item> The \<^verbatim>\<open>REAL\<close> column \<^verbatim>\<open>amount\<close> holds IEEE doubles. Their type is the parameter
    \<open>'a\<close> of the model, and the two things SQLite does with them in \<^verbatim>\<open>summarize\<close>, the
    aggregate \<^verbatim>\<open>SUM\<close> and the comparison of \<^verbatim>\<open>ORDER BY\<close>, are parameters of that
    query: neither is code of \<^verbatim>\<open>main.py\<close>. Nothing is assumed of \<^verbatim>\<open>SUM\<close>, so what is
    proved holds with the rounding of doubles; the exact \<^typ>\<open>real\<close> numbers with their
    sum and order are one instance, used for the examples.
  \<^item> An exception is the value \<open>Inl msg\<close>, with \<open>msg\<close> the text \<^verbatim>\<open>str(e)\<close>.
\<close>

subsection \<open>Rows and tables\<close>

text \<open>
  One row of the table created by \<^verbatim>\<open>init_db\<close>. The columns \<^verbatim>\<open>date\<close>, \<^verbatim>\<open>amount\<close> and
  \<^verbatim>\<open>category\<close> are \<^verbatim>\<open>NOT NULL\<close>; \<^verbatim>\<open>subcategory\<close> and \<^verbatim>\<open>note\<close> only have a default
  and may hold \<^verbatim>\<open>NULL\<close>, which is \<open>None\<close> here. The fields \<^verbatim>\<open>id\<close> and \<^verbatim>\<open>note\<close> carry a
  prime because both names are taken in Isabelle. The type \<open>'a\<close> of \<^verbatim>\<open>amount\<close> is that of
  the doubles the column can hold, infinities among them: SQLite stores a NaN as
  \<^verbatim>\<open>NULL\<close>, which \<^verbatim>\<open>NOT NULL\<close> refuses, so a NaN is no value of \<open>'a\<close>.
\<close>

record 'a expense =
  id' :: int
  date :: string
  amount :: 'a
  category :: string
  subcategory :: "string option"
  note' :: "string option"

text \<open>
  A table is its rows in insertion order and the entry that \<^verbatim>\<open>AUTOINCREMENT\<close> keeps
  for it in \<^verbatim>\<open>sqlite_sequence\<close>: the largest rowid the table has ever held.
\<close>

record 'a table =
  rows :: "'a expense list"
  autoinc :: int

datatype journal_mode = DELETE | WAL

text \<open>
  The database file: its journal mode and its tables by name, in creation order.
  \<^verbatim>\<open>main.py\<close> creates tables with the one \<^verbatim>\<open>CREATE TABLE\<close> statement of \<^verbatim>\<open>init_db\<close>, so
  every table has the columns of \<^typ>\<open>'a expense\<close>.
\<close>

record 'a database =
  journal :: journal_mode
  tables :: "(string \<times> 'a table) list"

definition find_table :: "string \<Rightarrow> 'a database \<Rightarrow> 'a table option" where
  "find_table name db = map_of (tables db) name"

fun replace_table :: "string \<Rightarrow> 'a table \<Rightarrow> (string \<times> 'a table) list \<Rightarrow> (string \<times> 'a table) list" where
  "replace_table name t [] = []"
| "replace_table name t ((n, u) # ts) =
     (if n = name then (n, t) # ts else (n, u) # replace_table name t ts)"

definition store_table :: "string \<Rightarrow> 'a table \<Rightarrow> 'a database \<Rightarrow> 'a database" where
  "store_table name t db = db\<lparr>tables := replace_table name t (tables db)\<rparr>"

subsection \<open>Failures of the storage layer\<close>

text \<open>
  Each tool talks to SQLite at a few points; at each of them the storage layer may
  raise (I/O error, lock, full disk). The environment says for every point whether
  it raises, and with which text.
\<close>

datatype fault_point = OnConnect | OnPragma | OnExecute | OnFetch | OnCommit

type_synonym faults = "fault_point \<Rightarrow> string option"

definition no_faults :: faults where
  "no_faults = (\<lambda>p. None)"

text \<open>The payload \<^verbatim>\<open>{"status": "error", "message": str(e)}\<close>.\<close>

datatype error_payload = ErrorPayload (err_status: string) (err_message: string)

definition error_of :: "string \<Rightarrow> error_payload" where
  "error_of msg = ErrorPayload ''error'' msg"

text \<open>The payload \<^verbatim>\<open>{"status": "success", "id": cur.lastrowid, "message": ...}\<close>.\<close>

datatype add_payload = AddPayload (add_status: string) (add_id: int) (add_message: string)

subsection \<open>\<^verbatim>\<open>init_db\<close>\<close>

text \<open>\<^verbatim>\<open>CREATE TABLE IF NOT EXISTS expenses (...)\<close>: a table of that name is left as it is.\<close>

definition create_table_if_not_exists :: "string \<Rightarrow> 'a database \<Rightarrow> 'a database" where
  "create_table_if_not_exists name db =
     (if name \<in> set (map fst (tables db)) then db
      else db\<lparr>tables := tables db @ [(name, \<lparr>rows = [], autoinc = 0\<rparr>)]\<rparr>)"

text \<open>
  \<^verbatim>\<open>init_db\<close> connects, switches the journal to write-ahead logging, creates the table
  and commits when the \<^verbatim>\<open>with\<close> block ends. An exception is printed and raised again:
  the result \<open>Inl msg\<close>.
\<close>

definition init_db :: "faults \<Rightarrow> 'a database \<Rightarrow> string + 'a database" where
  "init_db fs db =
     (case fs OnConnect of Some e \<Rightarrow> Inl e | None \<Rightarrow>
     (case fs OnPragma of Some e \<Rightarrow> Inl e | None \<Rightarrow>
     (case fs OnExecute of Some e \<Rightarrow> Inl e | None \<Rightarrow>
     (case fs OnCommit of Some e \<Rightarrow> Inl e | None \<Rightarrow>
        Inr (create_table_if_not_exists ''expenses'' (db\<lparr>journal := WAL\<rparr>))))))"

text \<open>Calling \<^verbatim>\<open>init_db\<close> \<open>n\<close> times in a row; the first exception ends the run.\<close>

fun init_db_times :: "nat \<Rightarrow> faults \<Rightarrow> 'a database \<Rightarrow> string + 'a database" where
  "init_db_times 0 fs db = Inr db"
| "init_db_times (Suc n) fs db =
     (case init_db fs db of Inl e \<Rightarrow> Inl e | Inr db' \<Rightarrow> init_db_times n fs db')"

subsection \<open>\<^verbatim>\<open>add_expense\<close>\<close>

text \<open>Python's \<^verbatim>\<open>x or ""\<close> on an optional string: \<^verbatim>\<open>None\<close> and \<^verbatim>\<open>""\<close> are falsy.\<close>

definition or_empty :: "string option \<Rightarrow> string" where
  "or_empty x = (case x of None \<Rightarrow> '''' | Some s \<Rightarrow> if s = '''' then '''' else s)"

text \<open>The largest rowid of a table, 0 for a table without rows.\<close>

definition max_rowid :: "'a expense list \<Rightarrow> int" where
  "max_rowid rs = foldr (\<lambda>r m. max (id' r) m) rs 0"

definition MAX_ROWID :: int where
  "MAX_ROWID = 9223372036854775807"

text \<open>
  \<^verbatim>\<open>INSERT INTO expenses (date, amount, category, subcategory, note) VALUES (?, ?, ?, ?, ?)\<close>
  on a table whose key is \<^verbatim>\<open>INTEGER PRIMARY KEY AUTOINCREMENT\<close>: the new rowid is one
  more than the largest rowid the table has ever held; when that is the largest
  64-bit integer the statement fails with \<^verbatim>\<open>SQLITE_FULL\<close>. The result is the table with
  the row appended and the rowid (\<^verbatim>\<open>cur.lastrowid\<close>).
\<close>

definition insert_row ::
  "string \<Rightarrow> 'a \<Rightarrow> string \<Rightarrow> string \<Rightarrow> string \<Rightarrow> 'a table \<Rightarrow> string + ('a table \<times> int)" where
  "insert_row d a c sub n t =
     (let largest = max (autoinc t) (max_rowid (rows t)) in
      if largest \<ge> MAX_ROWID then Inl ''database or disk is full''
      else
        let rowid = largest + 1;
            r = \<lparr>id' = rowid, date = d, amount = a, category = c,
                 subcategory = Some sub, note' = Some n\<rparr>
        in Inr (\<lparr>rows = rows t @ [r], autoinc = rowid\<rparr>, rowid))"

text \<open>
  The body of the \<^verbatim>\<open>try\<close> block: connect, execute the \<^verbatim>\<open>INSERT\<close>, commit. The result
  is the committed database and the new rowid, or the exception.
\<close>

definition add_expense_try ::
  "faults \<Rightarrow> 'a database \<Rightarrow> string \<Rightarrow> 'a \<Rightarrow> string \<Rightarrow> string option \<Rightarrow> string option
     \<Rightarrow> string + ('a database \<times> int)" where
  "add_expense_try fs db d a c sub n =
     (case fs OnConnect of Some e \<Rightarrow> Inl e | None \<Rightarrow>
     (case fs OnExecute of Some e \<Rightarrow> Inl e | None \<Rightarrow>
     (case find_table ''expenses'' db of None \<Rightarrow> Inl ''no such table: expenses'' | Some t \<Rightarrow>
     (case insert_row d a c (or_empty sub) (or_empty n) t of Inl e \<Rightarrow> Inl e | Inr (t', rowid) \<Rightarrow>
     (case fs OnCommit of Some e \<Rightarrow> Inl e | None \<Rightarrow>
        Inr (store_table ''expenses'' t' db, rowid))))))"

text \<open>
  The tool: the database after the call and the payload. When the body raises, the
  connection is closed without a commit, so the database is the one before the call.
\<close>

definition add_expense ::
  "faults \<Rightarrow> 'a database \<Rightarrow> string \<Rightarrow> 'a \<Rightarrow> string \<Rightarrow> string option \<Rightarrow> string option
     \<Rightarrow> 'a database \<times> (error_payload + add_payload)" where
  "add_expense fs db d a c sub n =
     (case add_expense_try fs db d a c sub n of
        Inl e \<Rightarrow> (db, Inl (error_of e))
      | Inr (db', rowid) \<Rightarrow>
          (db', Inr (AddPayload ''success'' rowid ''Expense added successfully'')))"

subsection \<open>\<^verbatim>\<open>list_expenses\<close>\<close>

text \<open>\<^verbatim>\<open>date BETWEEN ? AND ?\<close>.\<close>

definition between :: "string \<Rightarrow> string \<Rightarrow> string \<Rightarrow> bool" where
  "between start_date end_date d \<longleftrightarrow> start_date \<le> d \<and> d \<le> end_date"

text \<open>
  \<^verbatim>\<open>SELECT id, date, amount, category, subcategory, note FROM expenses\<close>
  \<^verbatim>\<open>WHERE date BETWEEN ? AND ? ORDER BY date DESC, id DESC\<close>.
\<close>

definition select_range :: "string \<Rightarrow> string \<Rightarrow> 'a expense list \<Rightarrow> 'a expense list" where
  "select_range start_date end_date rs =
     rev (sort_key (\<lambda>r. (date r, id' r)) (filter (\<lambda>r. between start_date end_date (date r)) rs))"

definition list_expenses_try ::
  "faults \<Rightarrow> 'a database \<Rightarrow> string \<Rightarrow> string \<Rightarrow> string + 'a expense list" where
  "list_expenses_try fs db start_date end_date =
     (case fs OnConnect of Some e \<Rightarrow> Inl e | None \<Rightarrow>
     (case fs OnExecute of Some e \<Rightarrow> Inl e | None \<Rightarrow>
     (case find_table ''expenses'' db of None \<Rightarrow> Inl ''no such table: expenses'' | Some t \<Rightarrow>
     (case fs OnFetch of Some e \<Rightarrow> Inl e | None \<Rightarrow>
        Inr (select_range start_date end_date (rows t))))))"

text \<open>
  The tool: each fetched row becomes a dictionary of its six columns, which is the
  \<^typ>\<open>'a expense\<close> record itself.
\<close>

definition list_expenses ::
  "faults \<Rightarrow> 'a database \<Rightarrow> string \<Rightarrow> string \<Rightarrow> error_payload + 'a expense list" where
  "list_expenses fs db start_date end_date =
     (case list_expenses_try fs db start_date end_date of
        Inl e \<Rightarrow> Inl (error_of e)
      | Inr rs \<Rightarrow> Inr rs)"

subsection \<open>\<^verbatim>\<open>summarize\<close>\<close>

text \<open>
  One row of the result: the columns \<^verbatim>\<open>category\<close>, \<^verbatim>\<open>total_amount\<close> and \<^verbatim>\<open>count\<close> of the
  \<^verbatim>\<open>SELECT\<close>. The first and the last carry a prime: \<^verbatim>\<open>category\<close> is a field of an
  expense already and \<^verbatim>\<open>count\<close> is taken by the multiset library. The type \<open>'b\<close> of
  \<^verbatim>\<open>total_amount\<close> is that of the values \<^verbatim>\<open>SUM\<close> returns: a double, or \<^verbatim>\<open>NULL\<close> when the
  sum is not a number.
\<close>

record 'b summary =
  category' :: string
  total_amount :: 'b
  count' :: nat

text \<open>
  \<^verbatim>\<open>GROUP BY category\<close>: each row is added to the group of its category, or opens that
  group. A group is its category and the amounts of its rows, in the order of the
  table; the groups are in ascending order of category.
\<close>

fun group_step :: "'a expense \<Rightarrow> (string \<times> 'a list) list \<Rightarrow> (string \<times> 'a list) list" where
  "group_step r [] = [(category r, [amount r])]"
| "group_step r ((c, xs) # gs) =
     (if category r = c then (c, xs @ [amount r]) # gs
      else if category r < c then (category r, [amount r]) # (c, xs) # gs
      else (c, xs) # group_step r gs)"

definition group_by_category :: "'a expense list \<Rightarrow> (string \<times> 'a list) list" where
  "group_by_category rs = foldl (\<lambda>gs r. group_step r gs) [] rs"

text \<open>The amounts that the groups hold for a category, none when it has no group.\<close>

definition group_amounts :: "string \<Rightarrow> (string \<times> 'a list) list \<Rightarrow> 'a list" where
  "group_amounts c gs = (case map_of gs c of None \<Rightarrow> [] | Some xs \<Rightarrow> xs)"

text \<open>
  The result row of a group: \<^verbatim>\<open>category\<close>, \<^verbatim>\<open>SUM(amount) AS total_amount\<close> and
  \<^verbatim>\<open>COUNT(*) AS count\<close>. The aggregate \<^verbatim>\<open>SUM\<close> is the parameter \<open>sum_of\<close>: what SQLite
  returns for the amounts of a group, given in the order of the table.
\<close>

definition aggregate :: "('a list \<Rightarrow> 'b) \<Rightarrow> string \<times> 'a list \<Rightarrow> 'b summary" where
  "aggregate sum_of g =
     \<lparr>category' = fst g, total_amount = sum_of (snd g), count' = length (snd g)\<rparr>"

text \<open>
  The \<^verbatim>\<open>WHERE\<close> clause that \<^verbatim>\<open>summarize\<close> builds: \<^verbatim>\<open>date BETWEEN ? AND ?\<close>, and
  \<^verbatim>\<open>AND category = ?\<close> only under \<^verbatim>\<open>if category:\<close>, which \<^verbatim>\<open>None\<close> and \<^verbatim>\<open>""\<close> fail.
\<close>

definition where_clause :: "string \<Rightarrow> string \<Rightarrow> string option \<Rightarrow> 'a expense \<Rightarrow> bool" where
  "where_clause start_date end_date cat r =
     (between start_date end_date (date r) \<and>
      (case cat of None \<Rightarrow> True | Some c \<Rightarrow> if c = '''' then True else category r = c))"

text \<open>
  A stable sort into ascending order of \<open>le\<close>: an element goes in front of the first
  one that is not below it.
\<close>

fun insort_by :: "('c \<Rightarrow> 'c \<Rightarrow> bool) \<Rightarrow> 'c \<Rightarrow> 'c list \<Rightarrow> 'c list" where
  "insort_by le x [] = [x]"
| "insort_by le x (y # ys) = (if le x y then x # y # ys else y # insort_by le x ys)"

definition sort_by :: "('c \<Rightarrow> 'c \<Rightarrow> bool) \<Rightarrow> 'c list \<Rightarrow> 'c list" where
  "sort_by le xs = foldr (insort_by le) xs []"

text \<open>
  The whole query. \<^verbatim>\<open>ORDER BY total_amount DESC\<close> compares the totals with the parameter
  \<open>le\<close>, the order of SQLite on the values of \<^verbatim>\<open>SUM\<close>. The rows come out in descending
  order of the total, and rows with equal totals in descending order of category
  (SQLite runs the grouping pass in the direction of the \<^verbatim>\<open>ORDER BY\<close>): the reverse of
  the groups sorted stably into ascending order of the total.
\<close>

definition select_summary ::
  "('a list \<Rightarrow> 'b) \<Rightarrow> ('b \<Rightarrow> 'b \<Rightarrow> bool) \<Rightarrow> string \<Rightarrow> string \<Rightarrow> string option
     \<Rightarrow> 'a expense list \<Rightarrow> 'b summary list" where
  "select_summary sum_of le start_date end_date cat rs =
     rev (sort_by (\<lambda>g h. le (total_amount g) (total_amount h))
       (map (aggregate sum_of)
         (group_by_category (filter (where_clause start_date end_date cat) rs))))"

definition summarize_try ::
  "('a list \<Rightarrow> 'b) \<Rightarrow> ('b \<Rightarrow> 'b \<Rightarrow> bool) \<Rightarrow> faults \<Rightarrow> 'a database \<Rightarrow> string \<Rightarrow> string
     \<Rightarrow> string option \<Rightarrow> string + 'b summary list" where
  "summarize_try sum_of le fs db start_date end_date cat =
     (case fs OnConnect of Some e \<Rightarrow> Inl e | None \<Rightarrow>
     (case fs OnExecute of Some e \<Rightarrow> Inl e | None \<Rightarrow>
     (case find_table ''expenses'' db of None \<Rightarrow> Inl ''no such table: expenses'' | Some t \<Rightarrow>
     (case fs OnFetch of Some e \<Rightarrow> Inl e | None \<Rightarrow>
        Inr (select_summary sum_of le start_date end_date cat (rows t))))))"

definition summarize ::
  "('a list \<Rightarrow> 'b) \<Rightarrow> ('b \<Rightarrow> 'b \<Rightarrow> bool) \<Rightarrow> faults \<Rightarrow> 'a database \<Rightarrow> string \<Rightarrow> string
     \<Rightarrow> string option \<Rightarrow> error_payload + 'b summary list" where
  "summarize sum_of le fs db start_date end_date cat =
     (case summarize_try sum_of le fs db start_date end_date cat of
        Inl e \<Rightarrow> Inl (error_of e)
      | Inr gs \<Rightarrow> Inr gs)"

subsection \<open>The \<^verbatim>\<open>categories\<close> resource\<close>

text \<open>
  The values that \<^verbatim>\<open>categories\<close> hands to \<^verbatim>\<open>json.dumps\<close>: dictionaries with string keys,
  lists and strings.
\<close>

datatype json = JString string | JArray "json list" | JObject "(string \<times> json) list"

definition hex_digit :: "nat \<Rightarrow> char" where
  "hex_digit n = ''0123456789abcdef'' ! (n mod 16)"

text \<open>
  The string encoder of \<^verbatim>\<open>json.dumps\<close> with its default \<^verbatim>\<open>ensure_ascii=True\<close>: the quote
  and the backslash are escaped, so are the control characters, and every character
  outside the range from the space to the tilde is written \<^verbatim>\<open>\u00XX\<close>. A character of
  the model is a code point below 256.
\<close>

definition escape_char :: "char \<Rightarrow> string" where
  \<open>escape_char c =
     (if c = CHR 0x22 then [CHR 0x5C, CHR 0x22]
      else if c = CHR 0x5C then [CHR 0x5C, CHR 0x5C]
      else if c = CHR 0x0A then [CHR 0x5C, CHR ''n'']
      else if c = CHR 0x0D then [CHR 0x5C, CHR ''r'']
      else if c = CHR 0x09 then [CHR 0x5C, CHR ''t'']
      else if c = CHR 0x0C then [CHR 0x5C, CHR ''f'']
      else if c = CHR 0x08 then [CHR 0x5C, CHR ''b'']
      else if (of_char c :: nat) < 32 \<or> (of_char c :: nat) > 126
        then [CHR 0x5C, CHR ''u'', CHR ''0'', CHR ''0'',
              hex_digit ((of_char c :: nat) div 16), hex_digit (of_char c :: nat)]
      else [c])\<close>

definition encode_string :: "string \<Rightarrow> string" where
  "encode_string s = [CHR 0x22] @ concat (map escape_char s) @ [CHR 0x22]"

fun join :: "string \<Rightarrow> string list \<Rightarrow> string" where
  "join sep [] = []"
| "join sep [x] = x"
| "join sep (x # y # ys) = x @ sep @ join sep (y # ys)"

text \<open>
  The encoder at nesting depth \<open>level\<close>. Without \<^verbatim>\<open>indent\<close> the items are separated by
  a comma and a space on one line; with \<^verbatim>\<open>indent=n\<close> each item is on a line of its own,
  \<open>n\<close> spaces deeper than the bracket that holds it, and the separator is the comma.
\<close>

fun iterencode :: "nat option \<Rightarrow> nat \<Rightarrow> json \<Rightarrow> string" where
  "iterencode indent level (JString s) = encode_string s"
| "iterencode indent level (JArray xs) =
     (if xs = [] then ''[]''
      else case indent of
        None \<Rightarrow> ''['' @ join '', '' (map (iterencode indent level) xs) @ '']''
      | Some n \<Rightarrow>
          ''['' @ (CHR 0x0A # replicate (n * (level + 1)) CHR '' '')
          @ join ('','' @ (CHR 0x0A # replicate (n * (level + 1)) CHR '' ''))
              (map (iterencode indent (level + 1)) xs)
          @ (CHR 0x0A # replicate (n * level) CHR '' '') @ '']'')"
| "iterencode indent level (JObject kvs) =
     (if kvs = [] then ''{}''
      else case indent of
        None \<Rightarrow>
          ''{'' @ join '', ''
              (map (\<lambda>kv. encode_string (fst kv) @ '': '' @ iterencode indent level (snd kv)) kvs)
          @ ''}''
      | Some n \<Rightarrow>
          ''{'' @ (CHR 0x0A # replicate (n * (level + 1)) CHR '' '')
          @ join ('','' @ (CHR 0x0A # replicate (n * (level + 1)) CHR '' ''))
              (map (\<lambda>kv. encode_string (fst kv) @ '': '' @ iterencode indent (level + 1) (snd kv))
                 kvs)
          @ (CHR 0x0A # replicate (n * level) CHR '' '') @ ''}'')"

definition dumps :: "nat option \<Rightarrow> json \<Rightarrow> string" where
  "dumps indent obj = iterencode indent 0 obj"

text \<open>
  The file at \<^verbatim>\<open>CATEGORIES_PATH\<close>: absent (\<^verbatim>\<open>os.path.exists\<close> is false), present with the
  text that its bytes decode to, or present and failing to open, read or decode with
  an exception of the given text.
\<close>

datatype config_file = Absent | Present string | Unreadable string

text \<open>
  \<^verbatim>\<open>open(CATEGORIES_PATH, "r", encoding="utf-8")\<close> opens the file in text mode, where
  \<^verbatim>\<open>read\<close> gives every line ending, \<^verbatim>\<open>\r\n\<close> and \<^verbatim>\<open>\r\<close> as well as \<^verbatim>\<open>\n\<close>, as \<^verbatim>\<open>\n\<close>.
\<close>

fun universal_newlines :: "string \<Rightarrow> string" where
  "universal_newlines [] = []"
| "universal_newlines [c] = (if c = CHR 0x0D then [CHR 0x0A] else [c])"
| "universal_newlines (c # d # s) =
     (if c = CHR 0x0D \<and> d = CHR 0x0A then CHR 0x0A # universal_newlines s
      else if c = CHR 0x0D then CHR 0x0A # universal_newlines (d # s)
      else c # universal_newlines (d # s))"

definition categories :: "config_file \<Rightarrow> string" where
  "categories f =
     (case f of
        Present content \<Rightarrow> universal_newlines content
      | Unreadable e \<Rightarrow> dumps None (JObject [(''error'', JString e)])
      | Absent \<Rightarrow>
          dumps (Some 2)
            (JObject [(''categories'',
               JArray (map JString
                 [''food'', ''transport'', ''housing'', ''utilities'', ''health'', ''education'',
                  ''shopping'', ''entertainment'', ''travel'', ''business'', ''misc'']))]))"

subsection \<open>The server\<close>

text \<open>
  What runs against the database file: \<^verbatim>\<open>init_db\<close> when the module is loaded, and the
  three tools whenever a client calls them, each with the storage layer in the state it
  then is in. A failed \<^verbatim>\<open>init_db\<close> ends the process; of the database it can have changed
  the journal mode only. \<^verbatim>\<open>list_expenses\<close> and \<^verbatim>\<open>summarize\<close> run one \<^verbatim>\<open>SELECT\<close> and
  leave the database as it is.
\<close>

datatype 'a call =
    InitDb
  | AddExpense string 'a string "string option" "string option"
  | ListExpenses string string
  | Summarize string string "string option"

fun step :: "faults \<Rightarrow> 'a call \<Rightarrow> 'a database \<Rightarrow> 'a database" where
  "step fs InitDb db =
     (case init_db fs db of
        Inl e \<Rightarrow> if fs OnConnect = None \<and> fs OnPragma = None then db\<lparr>journal := WAL\<rparr> else db
      | Inr db' \<Rightarrow> db')"
| "step fs (AddExpense d a c sub n) db = fst (add_expense fs db d a c sub n)"
| "step fs (ListExpenses start_date end_date) db = db"
| "step fs (Summarize start_date end_date cat) db = db"

fun run :: "(faults \<times> 'a call) list \<Rightarrow> 'a database \<Rightarrow> 'a database" where
  "run [] db = db"
| "run ((fs, c) # cs) db = run cs (step fs c db)"

section \<open>Properties\<close>

subsection \<open>Tables\<close>

lemma map_of_replace_table:
  "map_of ts name = Some u \<Longrightarrow> map_of (replace_table name t ts) name = Some t"
  by (induction ts) (auto split: if_splits)

lemma find_table_store_table:
  "find_table name db = Some u \<Longrightarrow> find_table name (store_table name t db) = Some t"
  by (simp add: find_table_def store_table_def map_of_replace_table)

subsection \<open>What a successful \<^verbatim>\<open>add_expense\<close> did\<close>

lemma add_expense_try_InrD:
  assumes "add_expense_try fs db d a c sub n = Inr (db', rowid)"
  shows "\<exists>t. find_table ''expenses'' db = Some t
           \<and> max (autoinc t) (max_rowid (rows t)) < MAX_ROWID
           \<and> rowid = max (autoinc t) (max_rowid (rows t)) + 1
           \<and> db' = store_table ''expenses''
                 \<lparr>rows = rows t @ [\<lparr>id' = rowid, date = d, amount = a, category = c,
                     subcategory = Some (or_empty sub), note' = Some (or_empty n)\<rparr>],
                  autoinc = rowid\<rparr> db"
  using assms
  by (auto simp: add_expense_try_def insert_row_def Let_def
      split: option.splits sum.splits if_splits)

lemma add_expense_InrD:
  assumes "add_expense fs db d a c sub n = (db', Inr p)"
  shows "add_expense_try fs db d a c sub n = Inr (db', add_id p)
         \<and> p = AddPayload ''success'' (add_id p) ''Expense added successfully''"
  using assms by (auto simp: add_expense_def split: sum.splits)

subsection \<open>The range query\<close>

lemma list_expenses_ok:
  assumes "find_table ''expenses'' db = Some t"
    and "fs OnConnect = None" and "fs OnExecute = None" and "fs OnFetch = None"
  shows "list_expenses fs db s e = Inr (select_range s e (rows t))"
  using assms by (simp add: list_expenses_def list_expenses_try_def)

lemma set_select_range:
  "set (select_range s e rs) = {r \<in> set rs. between s e (date r)}"
  by (auto simp: select_range_def)

lemma mset_select_range:
  "mset (select_range s e rs) = filter_mset (\<lambda>r. between s e (date r)) (mset rs)"
  by (simp add: select_range_def)

lemma sorted_select_range:
  "sorted_wrt (\<lambda>x y. date y < date x \<or> (date x = date y \<and> id' y \<le> id' x))
     (select_range s e rs)"
proof -
  let ?k = "\<lambda>r. (date r, id' r)"
  let ?ys = "sort_key ?k (filter (\<lambda>r. between s e (date r)) rs)"
  have "sorted (map ?k ?ys)" by (rule sorted_sort_key)
  then have "sorted_wrt (\<lambda>x y. ?k x \<le> ?k y) ?ys" by (simp add: sorted_wrt_map)
  then have "sorted_wrt (\<lambda>x y. ?k y \<le> ?k x) (rev ?ys)" by (simp add: sorted_wrt_rev)
  then show ?thesis
    unfolding select_range_def
    by (rule sorted_wrt_mono_rel[rotated]) (auto simp: less_eq_prod_def)
qed

lemma distinct_select_range:
  assumes "distinct (map id' rs)"
  shows "distinct (map id' (select_range s e rs))"
proof -
  from assms have "distinct rs" and "inj_on id' (set rs)"
    by (simp_all add: distinct_map)
  moreover have "set (select_range s e rs) \<subseteq> set rs"
    by (auto simp: set_select_range)
  ultimately show ?thesis
    by (auto simp: distinct_map select_range_def intro: inj_on_subset)
qed

lemma sorted_wrt_distinct_strict:
  "sorted_wrt (\<lambda>x y. P x y \<or> (Q x y \<and> f y \<le> f x)) xs \<Longrightarrow> distinct (map f xs)
   \<Longrightarrow> sorted_wrt (\<lambda>x y. P x y \<or> (Q x y \<and> f y < (f x :: int))) xs"
proof (induction xs)
  case Nil
  then show ?case by simp
next
  case (Cons a xs)
  have "P a x \<or> (Q a x \<and> f x < f a)" if "x \<in> set xs" for x
  proof -
    from Cons.prems(1) that have "P a x \<or> (Q a x \<and> f x \<le> f a)" by simp
    moreover have "f a \<notin> f ` set xs" using Cons.prems(2) by simp
    then have "f x \<noteq> f a" using that by (metis imageI)
    ultimately show ?thesis by auto
  qed
  with Cons show ?case by simp
qed

lemma strict_sorted_select_range:
  assumes "distinct (map id' rs)"
  shows "sorted_wrt (\<lambda>x y. date y < date x \<or> (date x = date y \<and> id' y < id' x))
           (select_range s e rs)"
  by (rule sorted_wrt_distinct_strict[OF sorted_select_range distinct_select_range[OF assms]])

subsection \<open>A first run\<close>

lemma init_empty:
  "init_db no_faults \<lparr>journal = DELETE, tables = []\<rparr> =
     Inr \<lparr>journal = WAL, tables = [(''expenses'', \<lparr>rows = [], autoinc = 0\<rparr>)]\<rparr>"
  by (simp add: init_db_def no_faults_def create_table_if_not_exists_def)

lemma add_first:
  "add_expense no_faults \<lparr>journal = WAL, tables = [(''expenses'', \<lparr>rows = [], autoinc = 0\<rparr>)]\<rparr>
      ''2024-01-05'' (12.5::real) ''food'' None None =
   (\<lparr>journal = WAL, tables = [(''expenses'',
        \<lparr>rows = [\<lparr>id' = 1, date = ''2024-01-05'', amount = (12.5::real), category = ''food'',
                   subcategory = Some '''', note' = Some ''''\<rparr>], autoinc = 1\<rparr>)]\<rparr>,
    Inr (AddPayload ''success'' 1 ''Expense added successfully''))"
  by (simp add: add_expense_def add_expense_try_def no_faults_def find_table_def insert_row_def
      max_rowid_def MAX_ROWID_def or_empty_def store_table_def Let_def)

lemma list_first:
  "list_expenses no_faults \<lparr>journal = WAL, tables = [(''expenses'',
        \<lparr>rows = [\<lparr>id' = 1, date = ''2024-01-05'', amount = (12.5::real), category = ''food'',
                   subcategory = Some '''', note' = Some ''''\<rparr>], autoinc = 1\<rparr>)]\<rparr>
     ''2024-01-01'' ''2024-01-31'' =
   Inr [\<lparr>id' = 1, date = ''2024-01-05'', amount = (12.5::real), category = ''food'',
                   subcategory = Some '''', note' = Some ''''\<rparr>]"
  by (simp add: list_expenses_def list_expenses_try_def no_faults_def find_table_def
      select_range_def between_def)

subsection \<open>Initialisation\<close>

lemma init_db_no_faults:
  "init_db no_faults db = Inr (create_table_if_not_exists ''expenses'' (db\<lparr>journal := WAL\<rparr>))"
  by (simp add: init_db_def no_faults_def)

lemma create_table_twice:
  "create_table_if_not_exists name ((create_table_if_not_exists name db)\<lparr>journal := j\<rparr>) =
     (create_table_if_not_exists name db)\<lparr>journal := j\<rparr>"
  by (simp add: create_table_if_not_exists_def)

lemma init_db_again:
  "init_db no_faults (create_table_if_not_exists ''expenses'' (db\<lparr>journal := WAL\<rparr>)) =
     Inr (create_table_if_not_exists ''expenses'' (db\<lparr>journal := WAL\<rparr>))"
proof -
  have "(create_table_if_not_exists ''expenses'' (db\<lparr>journal := WAL\<rparr>))\<lparr>journal := WAL\<rparr> =
      create_table_if_not_exists ''expenses'' (db\<lparr>journal := WAL\<rparr>)"
    by (simp add: create_table_if_not_exists_def)
  then show ?thesis
    using create_table_twice [where name = "''expenses''" and db = "db\<lparr>journal := WAL\<rparr>"
        and j = WAL]
    by (simp add: init_db_no_faults)
qed

lemma init_db_times_again:
  "init_db_times n no_faults (create_table_if_not_exists ''expenses'' (db\<lparr>journal := WAL\<rparr>)) =
     Inr (create_table_if_not_exists ''expenses'' (db\<lparr>journal := WAL\<rparr>))"
  by (induction n) (simp_all add: init_db_again)

lemma init_db_times_Suc:
  "init_db_times (Suc n) no_faults db =
     Inr (create_table_if_not_exists ''expenses'' (db\<lparr>journal := WAL\<rparr>))"
  by (simp add: init_db_no_faults init_db_times_again)

lemma count_distinct_names:
  "distinct (map fst ts) \<Longrightarrow>
     length (filter (\<lambda>nt. fst nt = name) ts) = (if name \<in> fst ` set ts then 1 else 0)"
  by (induction ts) (auto simp: image_iff)

lemma count_after_create:
  assumes "distinct (map fst (tables db))"
  shows "length (filter (\<lambda>nt. fst nt = name) (tables (create_table_if_not_exists name db))) = 1"
  using assms by (simp add: create_table_if_not_exists_def count_distinct_names)

lemma find_table_create_kept:
  assumes "find_table name' db = Some t"
  shows "find_table name' (create_table_if_not_exists name db) = Some t"
  using assms by (simp add: create_table_if_not_exists_def find_table_def)

lemma find_table_create_new:
  assumes "find_table name db = None"
  shows "find_table name (create_table_if_not_exists name db) = Some \<lparr>rows = [], autoinc = 0\<rparr>"
proof -
  from assms have m: "map_of (tables db) name = None" by (simp add: find_table_def)
  then have "name \<notin> set (map fst (tables db))" by (simp add: map_of_eq_None_iff)
  with m show ?thesis
    by (simp add: create_table_if_not_exists_def find_table_def map_add_def
        del: map_of_eq_None_iff)
qed

subsection \<open>Failures\<close>

lemma add_expense_try_InlD:
  assumes "add_expense_try fs db d a c sub n = Inl msg" and "\<forall>p m. fs p = Some m \<longrightarrow> m \<noteq> ''''"
  shows "msg \<noteq> ''''"
  using assms
  by (auto simp: add_expense_try_def insert_row_def Let_def
      split: option.splits sum.splits if_splits)

lemma list_expenses_try_InlD:
  assumes "list_expenses_try fs db s e = Inl msg" and "\<forall>p m. fs p = Some m \<longrightarrow> m \<noteq> ''''"
  shows "msg \<noteq> ''''"
  using assms by (auto simp: list_expenses_try_def split: option.splits)

lemma summarize_try_InlD:
  assumes "summarize_try sum_of le fs db s e cat = Inl msg" and "\<forall>p m. fs p = Some m \<longrightarrow> m \<noteq> ''''"
  shows "msg \<noteq> ''''"
  using assms by (auto simp: summarize_try_def split: option.splits)

subsection \<open>Identifiers\<close>

lemma max_rowid_ge: "r \<in> set rs \<Longrightarrow> id' r \<le> max_rowid rs"
  by (induction rs) (auto simp: max_rowid_def)

lemma find_table_journal [simp]: "find_table name (db\<lparr>journal := j\<rparr>) = find_table name db"
  by (simp add: find_table_def)

lemma add_expense_appends:
  assumes "add_expense fs db d a c sub n = (db', Inr p)"
  shows "\<exists>t. find_table ''expenses'' db = Some t
           \<and> find_table ''expenses'' db' =
               Some \<lparr>rows = rows t @ [\<lparr>id' = add_id p, date = d, amount = a, category = c,
                        subcategory = Some (or_empty sub), note' = Some (or_empty n)\<rparr>],
                     autoinc = add_id p\<rparr>
           \<and> (\<forall>r \<in> set (rows t). id' r < add_id p) \<and> autoinc t < add_id p"
proof -
  from assms have "add_expense_try fs db d a c sub n = Inr (db', add_id p)"
    by (simp add: add_expense_InrD)
  then obtain t where t: "find_table ''expenses'' db = Some t"
    and p: "add_id p = max (autoinc t) (max_rowid (rows t)) + 1"
    and db': "db' = store_table ''expenses''
                 \<lparr>rows = rows t @ [\<lparr>id' = add_id p, date = d, amount = a, category = c,
                     subcategory = Some (or_empty sub), note' = Some (or_empty n)\<rparr>],
                  autoinc = add_id p\<rparr> db"
    using add_expense_try_InrD [of fs db d a c sub n db' "add_id p"] by blast
  have "id' r < add_id p" if "r \<in> set (rows t)" for r
    using max_rowid_ge [OF that] p by simp
  moreover have "autoinc t < add_id p" using p by simp
  moreover have "find_table ''expenses'' db' =
               Some \<lparr>rows = rows t @ [\<lparr>id' = add_id p, date = d, amount = a, category = c,
                        subcategory = Some (or_empty sub), note' = Some (or_empty n)\<rparr>],
                     autoinc = add_id p\<rparr>"
    unfolding db' using t by (rule find_table_store_table)
  ultimately show ?thesis using t by simp
qed

lemma step_extends:
  assumes "find_table ''expenses'' db = Some t"
  shows "\<exists>t' new. find_table ''expenses'' (step fs c db) = Some t'
           \<and> rows t' = rows t @ new \<and> length new \<le> 1
           \<and> (\<forall>r \<in> set new. \<forall>r0 \<in> set (rows t). id' r0 < id' r)"
proof (cases c)
  case InitDb
  have "find_table ''expenses'' (step fs InitDb db) = Some t"
    using assms
    by (auto simp: init_db_def find_table_create_kept split: option.splits)
  then show ?thesis unfolding InitDb by (intro exI[of _ t] exI[of _ "[]"]) simp
next
  case (AddExpense d a c' sub n)
  show ?thesis
  proof (cases "add_expense fs db d a c' sub n")
    case (Pair db' res)
    show ?thesis
    proof (cases res)
      case (Inl e)
      with Pair have "db' = db" by (auto simp: add_expense_def split: sum.splits)
      with Pair assms show ?thesis
        unfolding AddExpense by (intro exI[of _ t] exI[of _ "[]"]) simp
    next
      case (Inr p)
      let ?r = "\<lparr>id' = add_id p, date = d, amount = a, category = c',
                  subcategory = Some (or_empty sub), note' = Some (or_empty n)\<rparr>"
      from add_expense_appends [OF Pair [unfolded Inr]] assms
      have "find_table ''expenses'' db' = Some \<lparr>rows = rows t @ [?r], autoinc = add_id p\<rparr>"
        and "\<forall>r \<in> set (rows t). id' r < add_id p"
        by auto
      with Pair show ?thesis
        unfolding AddExpense
        by (intro exI[of _ "\<lparr>rows = rows t @ [?r], autoinc = add_id p\<rparr>"] exI[of _ "[?r]"]) simp
    qed
  qed
next
  case (ListExpenses s e)
  with assms show ?thesis by (intro exI[of _ t] exI[of _ "[]"]) simp
next
  case (Summarize s e cat)
  with assms show ?thesis by (intro exI[of _ t] exI[of _ "[]"]) simp
qed

lemma run_extends:
  assumes "find_table ''expenses'' db = Some t"
  shows "\<exists>t' new. find_table ''expenses'' (run cs db) = Some t'
           \<and> rows t' = rows t @ new
           \<and> sorted_wrt (<) (map id' new)
           \<and> (\<forall>r \<in> set new. \<forall>r0 \<in> set (rows t). id' r0 < id' r)"
  using assms
proof (induction cs arbitrary: db t)
  case Nil
  then show ?case by (intro exI[of _ t] exI[of _ "[]"]) simp
next
  case (Cons fc cs)
  obtain fs c where fc: "fc = (fs, c)" by (cases fc)
  from step_extends [OF Cons.prems, of fs c]
  obtain t1 new1 where t1: "find_table ''expenses'' (step fs c db) = Some t1"
    and r1: "rows t1 = rows t @ new1" and l1: "length new1 \<le> 1"
    and g1: "\<forall>r \<in> set new1. \<forall>r0 \<in> set (rows t). id' r0 < id' r"
    by blast
  from Cons.IH [OF t1]
  obtain t2 new2 where t2: "find_table ''expenses'' (run cs (step fs c db)) = Some t2"
    and r2: "rows t2 = rows t1 @ new2" and s2: "sorted_wrt (<) (map id' new2)"
    and g2: "\<forall>r \<in> set new2. \<forall>r0 \<in> set (rows t1). id' r0 < id' r"
    by blast
  from l1 have s1: "sorted_wrt (<) (map id' new1)"
    by (cases new1) auto
  have "sorted_wrt (<) (map id' (new1 @ new2))"
    using s1 s2 g2 r1 by (auto simp: sorted_wrt_append)
  moreover have "\<forall>r \<in> set (new1 @ new2). \<forall>r0 \<in> set (rows t). id' r0 < id' r"
    using g1 g2 r1 by auto
  moreover have "rows t2 = rows t @ (new1 @ new2)" using r1 r2 by simp
  ultimately show ?case
    unfolding fc using t2
    by (intro exI[of _ t2] exI[of _ "new1 @ new2"]) simp
qed

lemma distinct_ids_append:
  assumes "distinct (map id' old)" and "sorted_wrt (<) (map id' new)"
    and "\<forall>r \<in> set new. \<forall>r0 \<in> set old. id' r0 < id' r"
  shows "distinct (map id' (old @ new))"
proof -
  from assms(2) have "distinct (map id' new)"
    using strict_sorted_iff by blast
  moreover from assms(3) have "id' ` set old \<inter> id' ` set new = {}"
    by fastforce
  ultimately show ?thesis using assms(1) by simp
qed

subsection \<open>Sorting by a given order\<close>

lemma mset_insort_by: "mset (insort_by le x xs) = add_mset x (mset xs)"
  by (induction xs) auto

lemma mset_sort_by: "mset (sort_by le xs) = mset xs"
  by (induction xs) (simp_all add: sort_by_def mset_insort_by)

lemma set_sort_by: "set (sort_by le xs) = set xs"
  by (metis mset_sort_by set_mset_mset)

lemma set_insort_by: "set (insort_by le x xs) = insert x (set xs)"
  by (induction xs) auto

lemma sorted_insort_by:
  assumes "\<forall>x y. le x y \<or> le y x" and "\<forall>x y z. le x y \<and> le y z \<longrightarrow> le x z"
  shows "sorted_wrt le xs \<Longrightarrow> sorted_wrt le (insort_by le x xs)"
proof (induction xs)
  case Nil
  then show ?case by simp
next
  case (Cons y ys)
  show ?case
  proof (cases "le x y")
    case True
    have "le x z" if "z \<in> set ys" for z
    proof -
      from Cons.prems that have "le y z" by simp
      with True assms(2) show ?thesis by blast
    qed
    with True Cons.prems show ?thesis by simp
  next
    case False
    with assms(1) have "le y x" by blast
    moreover from Cons have "sorted_wrt le (insort_by le x ys)" by simp
    ultimately show ?thesis using False Cons.prems by (simp add: set_insort_by)
  qed
qed

lemma sorted_sort_by:
  assumes "\<forall>x y. le x y \<or> le y x" and "\<forall>x y z. le x y \<and> le y z \<longrightarrow> le x z"
  shows "sorted_wrt le (sort_by le xs)"
proof (induction xs)
  case Nil
  then show ?case by (simp add: sort_by_def)
next
  case (Cons x xs)
  then have "sorted_wrt le (insort_by le x (sort_by le xs))"
    by (rule sorted_insort_by [OF assms])
  then show ?case by (simp add: sort_by_def)
qed

subsection \<open>Grouping\<close>

lemma keys_group_step:
  "fst ` set (group_step r gs) = insert (category r) (fst ` set gs)"
  by (induction r gs rule: group_step.induct) auto

lemma sorted_group_step:
  "sorted_wrt (<) (map fst gs) \<Longrightarrow> sorted_wrt (<) (map fst (group_step r gs))"
proof (induction r gs rule: group_step.induct)
  case (1 r)
  then show ?case by simp
next
  case (2 r c xs gs)
  show ?case
  proof (cases "category r = c")
    case True
    with "2.prems" show ?thesis by simp
  next
    case False
    show ?thesis
    proof (cases "category r < c")
      case True
      with "2.prems" have "\<forall>x \<in> fst ` set gs. category r < x"
        by auto
      with True False "2.prems" show ?thesis by simp
    next
      case ge: False
      with False have lt: "c < category r" by simp
      have "\<forall>x \<in> fst ` set (group_step r gs). c < x"
        unfolding keys_group_step using lt "2.prems" by auto
      moreover have "sorted_wrt (<) (map fst (group_step r gs))"
        using "2.IH" [OF False ge] "2.prems" by simp
      ultimately show ?thesis using False ge by simp
    qed
  qed
qed

lemma amounts_group_step:
  "sorted_wrt (<) (map fst gs) \<Longrightarrow>
     group_amounts k (group_step r gs) =
       group_amounts k gs @ (if category r = k then [amount r] else [])"
proof (induction r gs rule: group_step.induct)
  case (1 r)
  then show ?case by (simp add: group_amounts_def)
next
  case (2 r c xs gs)
  show ?case
  proof (cases "category r = c")
    case True
    then show ?thesis by (simp add: group_amounts_def)
  next
    case False
    show ?thesis
    proof (cases "category r < c")
      case True
      with "2.prems" have "category r \<notin> fst ` set gs" by auto
      then have "map_of gs (category r) = None" by (simp add: map_of_eq_None_iff)
      with True False show ?thesis by (auto simp: group_amounts_def)
    next
      case ge: False
      from "2.prems" have "sorted_wrt (<) (map fst gs)" by simp
      from "2.IH" [OF False ge this] False ge show ?thesis
        by (auto simp: group_amounts_def)
    qed
  qed
qed

lemma foldl_group_step:
  assumes "sorted_wrt (<) (map fst gs0)"
  shows "sorted_wrt (<) (map fst (foldl (\<lambda>gs r. group_step r gs) gs0 rs))
       \<and> fst ` set (foldl (\<lambda>gs r. group_step r gs) gs0 rs) = fst ` set gs0 \<union> category ` set rs
       \<and> group_amounts k (foldl (\<lambda>gs r. group_step r gs) gs0 rs) =
           group_amounts k gs0 @ map amount (filter (\<lambda>r. category r = k) rs)"
  using assms
proof (induction rs arbitrary: gs0)
  case Nil
  then show ?case by simp
next
  case (Cons r rs)
  from Cons.prems have "sorted_wrt (<) (map fst (group_step r gs0))"
    by (rule sorted_group_step)
  from Cons.IH [OF this] Cons.prems show ?case
    by (simp add: keys_group_step amounts_group_step)
qed

lemma group_by_category_props:
  "distinct (map fst (group_by_category rs))"
  "fst ` set (group_by_category rs) = category ` set rs"
  "(k, xs) \<in> set (group_by_category rs) \<Longrightarrow> xs = map amount (filter (\<lambda>r. category r = k) rs)"
proof -
  have f: "sorted_wrt (<) (map fst (group_by_category rs))
       \<and> fst ` set (group_by_category rs) = category ` set rs
       \<and> group_amounts k (group_by_category rs) =
           map amount (filter (\<lambda>r. category r = k) rs)" for k
    using foldl_group_step [where ?gs0.0 = "[]" and k = k and rs = rs]
    by (simp add: group_by_category_def group_amounts_def)
  then show d: "distinct (map fst (group_by_category rs))"
    using strict_sorted_iff by blast
  from f show "fst ` set (group_by_category rs) = category ` set rs" by simp
  assume "(k, xs) \<in> set (group_by_category rs)"
  with d have "map_of (group_by_category rs) k = Some xs" by simp
  then have "group_amounts k (group_by_category rs) = xs" by (simp add: group_amounts_def)
  with f [of k] show "xs = map amount (filter (\<lambda>r. category r = k) rs)"
    by simp
qed

lemma summarize_ok:
  assumes "find_table ''expenses'' db = Some t"
    and "fs OnConnect = None" and "fs OnExecute = None" and "fs OnFetch = None"
  shows "summarize sum_of le fs db s e cat = Inr (select_summary sum_of le s e cat (rows t))"
  using assms by (simp add: summarize_def summarize_try_def)

lemma set_select_summary:
  "set (select_summary sum_of le s e cat rs) =
     aggregate sum_of ` set (group_by_category (filter (where_clause s e cat) rs))"
  by (simp add: select_summary_def set_sort_by)

lemma select_summary_props:
  "distinct (map category' (select_summary sum_of le s e cat rs))"
  "category' ` set (select_summary sum_of le s e cat rs) =
     category ` {r \<in> set rs. where_clause s e cat r}"
  "g \<in> set (select_summary sum_of le s e cat rs) \<Longrightarrow>
     total_amount g =
       sum_of (map amount (filter (\<lambda>r. where_clause s e cat r \<and> category r = category' g) rs))"
  "g \<in> set (select_summary sum_of le s e cat rs) \<Longrightarrow>
     count' g = length (filter (\<lambda>r. where_clause s e cat r \<and> category r = category' g) rs)"
proof -
  let ?m = "filter (where_clause s e cat) rs"
  let ?gs = "group_by_category ?m"
  let ?le = "\<lambda>g h. le (total_amount g) (total_amount h)"
  have c: "map category' (map (aggregate sum_of) ?gs) = map fst ?gs"
    by (simp add: aggregate_def)
  have "mset (map category' (sort_by ?le (map (aggregate sum_of) ?gs))) =
      mset (map category' (map (aggregate sum_of) ?gs))"
    by (simp only: mset_map mset_sort_by)
  then have "distinct (map category' (sort_by ?le (map (aggregate sum_of) ?gs))) =
      distinct (map fst ?gs)"
    unfolding c by (rule mset_eq_imp_distinct_iff)
  then show "distinct (map category' (select_summary sum_of le s e cat rs))"
    by (simp add: select_summary_def group_by_category_props(1) rev_map [symmetric])
  have "category' ` set (select_summary sum_of le s e cat rs) = fst ` set ?gs"
    unfolding set_select_summary by (force simp: aggregate_def)
  then show "category' ` set (select_summary sum_of le s e cat rs) =
     category ` {r \<in> set rs. where_clause s e cat r}"
    by (simp add: group_by_category_props(2))
  {
    assume "g \<in> set (select_summary sum_of le s e cat rs)"
    then obtain k xs where kx: "(k, xs) \<in> set ?gs" and g: "g = aggregate sum_of (k, xs)"
      unfolding set_select_summary by auto
    from group_by_category_props(3) [OF kx]
    have xs: "xs = map amount (filter (\<lambda>r. where_clause s e cat r \<and> category r = k) rs)"
      by simp
    from g have k: "category' g = k" by (simp add: aggregate_def)
    show "total_amount g =
       sum_of (map amount (filter (\<lambda>r. where_clause s e cat r \<and> category r = category' g) rs))"
      unfolding k using g xs by (simp add: aggregate_def)
    show "count' g =
       length (filter (\<lambda>r. where_clause s e cat r \<and> category r = category' g) rs)"
      unfolding k using g xs by (simp add: aggregate_def)
  }
qed

lemma sorted_select_summary:
  assumes "\<forall>x y. le x y \<or> le y x" and "\<forall>x y z. le x y \<and> le y z \<longrightarrow> le x z"
  shows "sorted_wrt (\<lambda>x y. le (total_amount y) (total_amount x))
           (select_summary sum_of le s e cat rs)"
proof -
  let ?le = "\<lambda>g h. le (total_amount g) (total_amount h)"
  have "\<forall>x y. ?le x y \<or> ?le y x" using assms(1) by blast
  moreover have "\<forall>x y z. ?le x y \<and> ?le y z \<longrightarrow> ?le x z" using assms(2) by blast
  ultimately have "sorted_wrt ?le (sort_by ?le xs)" for xs
    by (rule sorted_sort_by)
  then show ?thesis
    by (simp add: select_summary_def sorted_wrt_rev)
qed

subsection \<open>The resource\<close>






lemma where_clause_empty: "where_clause s e (Some '''') = where_clause s e None"
  by (rule ext) (simp add: where_clause_def)

lemma select_summary_empty:
  "select_summary sum_of le s e (Some '''') rs = select_summary sum_of le s e None rs"
  by (simp add: select_summary_def where_clause_empty)

lemma summarize_try_empty:
  "summarize_try sum_of le fs db s e (Some '''') = summarize_try sum_of le fs db s e None"
  by (simp add: summarize_try_def select_summary_empty split: option.split)

lemma where_clause_iff:
  "where_clause s e cat r \<longleftrightarrow>
     s \<le> date r \<and> date r \<le> e \<and> (\<forall>c. cat = Some c \<and> c \<noteq> '''' \<longrightarrow> category r = c)"
  by (auto simp: where_clause_def between_def split: option.splits)

lemma where_clause_empty_iff:
  "where_clause s e (Some '''') r \<longleftrightarrow> s \<le> date r \<and> date r \<le> e"
  by (simp add: where_clause_def between_def)

section \<open>The claims\<close>

text \<open>
  C1. An expense that \<^verbatim>\<open>add_expense\<close> has stored is listed by every range that
  lexically contains its date: the listed record carries the id that \<^verbatim>\<open>add_expense\<close>
  returned and the values passed, and its \<^verbatim>\<open>subcategory\<close> and \<^verbatim>\<open>note\<close> are strings,
  the empty string when the argument was absent, never \<^verbatim>\<open>NULL\<close>. On the store that
  \<^verbatim>\<open>init_db\<close> makes of an empty database file, adding
  \<^verbatim>\<open>{date: "2024-01-05", amount: 12.5, category: "food"}\<close> and listing
  \<^verbatim>\<open>"2024-01-01"\<close> to \<^verbatim>\<open>"2024-01-31"\<close> gives exactly that one record.
\<close>

theorem insert_round_trip:
  "(add_expense fs db d a c sub n = (db', Inr p) \<and> between s e d
      \<and> fs' OnConnect = None \<and> fs' OnExecute = None \<and> fs' OnFetch = None
    \<longrightarrow> (\<exists>rs r. list_expenses fs' db' s e = Inr rs \<and> r \<in> set rs
          \<and> id' r = add_id p \<and> date r = d \<and> amount r = a \<and> category r = c
          \<and> subcategory r = Some (or_empty sub) \<and> note' r = Some (or_empty n)
          \<and> (sub = None \<longrightarrow> subcategory r = Some '''')
          \<and> (n = None \<longrightarrow> note' r = Some '''')))
   \<and> (\<exists>db0 db1 p1. init_db no_faults \<lparr>journal = DELETE, tables = []\<rparr> = Inr db0
        \<and> add_expense no_faults db0 ''2024-01-05'' (12.5::real) ''food'' None None = (db1, Inr p1)
        \<and> list_expenses no_faults db1 ''2024-01-01'' ''2024-01-31'' =
            Inr [\<lparr>id' = add_id p1, date = ''2024-01-05'', amount = (12.5::real), category = ''food'',
                  subcategory = Some '''', note' = Some ''''\<rparr>])"
proof (intro conjI impI)
  assume h: "add_expense fs db d a c sub n = (db', Inr p) \<and> between s e d
      \<and> fs' OnConnect = None \<and> fs' OnExecute = None \<and> fs' OnFetch = None"
  let ?r = "\<lparr>id' = add_id p, date = d, amount = a, category = c,
              subcategory = Some (or_empty sub), note' = Some (or_empty n)\<rparr>"
  from h have "add_expense_try fs db d a c sub n = Inr (db', add_id p)"
    by (simp add: add_expense_InrD)
  then obtain t where t: "find_table ''expenses'' db = Some t"
    and db': "db' = store_table ''expenses'' \<lparr>rows = rows t @ [?r], autoinc = add_id p\<rparr> db"
    using add_expense_try_InrD [of fs db d a c sub n db' "add_id p"] by blast
  have "find_table ''expenses'' db' = Some \<lparr>rows = rows t @ [?r], autoinc = add_id p\<rparr>"
    unfolding db' using t by (rule find_table_store_table)
  with h have l: "list_expenses fs' db' s e = Inr (select_range s e (rows t @ [?r]))"
    by (simp add: list_expenses_ok)
  from h have "?r \<in> set (select_range s e (rows t @ [?r]))"
    by (simp add: set_select_range)
  with l show "\<exists>rs r. list_expenses fs' db' s e = Inr rs \<and> r \<in> set rs
          \<and> id' r = add_id p \<and> date r = d \<and> amount r = a \<and> category r = c
          \<and> subcategory r = Some (or_empty sub) \<and> note' r = Some (or_empty n)
          \<and> (sub = None \<longrightarrow> subcategory r = Some '''')
          \<and> (n = None \<longrightarrow> note' r = Some '''')"
    by (intro exI[of _ "select_range s e (rows t @ [?r])"] exI[of _ ?r])
       (simp add: or_empty_def)
next
  show "\<exists>db0 db1 p1. init_db no_faults \<lparr>journal = DELETE, tables = []\<rparr> = Inr db0
        \<and> add_expense no_faults db0 ''2024-01-05'' (12.5::real) ''food'' None None = (db1, Inr p1)
        \<and> list_expenses no_faults db1 ''2024-01-01'' ''2024-01-31'' =
            Inr [\<lparr>id' = add_id p1, date = ''2024-01-05'', amount = (12.5::real), category = ''food'',
                  subcategory = Some '''', note' = Some ''''\<rparr>]"
  proof (intro exI conjI)
    show "init_db no_faults \<lparr>journal = DELETE, tables = []\<rparr> =
            Inr \<lparr>journal = WAL, tables = [(''expenses'', \<lparr>rows = [], autoinc = 0\<rparr>)]\<rparr>"
      by (rule init_empty)
    show "add_expense no_faults
            \<lparr>journal = WAL, tables = [(''expenses'', \<lparr>rows = [], autoinc = 0\<rparr>)]\<rparr>
            ''2024-01-05'' (12.5::real) ''food'' None None =
          (\<lparr>journal = WAL, tables = [(''expenses'',
             \<lparr>rows = [\<lparr>id' = 1, date = ''2024-01-05'', amount = (12.5::real), category = ''food'',
                        subcategory = Some '''', note' = Some ''''\<rparr>], autoinc = 1\<rparr>)]\<rparr>,
           Inr (AddPayload ''success'' 1 ''Expense added successfully''))"
      by (rule add_first)
    show "list_expenses no_faults
            \<lparr>journal = WAL, tables = [(''expenses'',
             \<lparr>rows = [\<lparr>id' = 1, date = ''2024-01-05'', amount = (12.5::real), category = ''food'',
                        subcategory = Some '''', note' = Some ''''\<rparr>], autoinc = 1\<rparr>)]\<rparr>
            ''2024-01-01'' ''2024-01-31'' =
          Inr [\<lparr>id' = add_id (AddPayload ''success'' 1 ''Expense added successfully''),
                 date = ''2024-01-05'', amount = (12.5::real), category = ''food'',
                 subcategory = Some '''', note' = Some ''''\<rparr>]"
      using list_first by simp
  qed
qed

theorem insert_round_trip_witness:
  "\<exists>rs r. list_expenses no_faults
       \<lparr>journal = WAL, tables = [(''expenses'',
          \<lparr>rows = [\<lparr>id' = 1, date = ''2024-01-05'', amount = (12.5::real), category = ''food'',
                     subcategory = Some '''', note' = Some ''''\<rparr>], autoinc = 1\<rparr>)]\<rparr>
       ''2024-01-01'' ''2024-01-31'' = Inr rs
     \<and> r \<in> set rs \<and> id' r = 1 \<and> date r = ''2024-01-05'' \<and> amount r = 12.5
     \<and> category r = ''food'' \<and> subcategory r = Some '''' \<and> note' r = Some ''''"
  using insert_round_trip [of no_faults
      "\<lparr>journal = WAL, tables = [(''expenses'', \<lparr>rows = [], autoinc = 0\<rparr>)]\<rparr>"
      "''2024-01-05''" "12.5::real" "''food''" None None
      "\<lparr>journal = WAL, tables = [(''expenses'',
          \<lparr>rows = [\<lparr>id' = 1, date = ''2024-01-05'', amount = (12.5::real), category = ''food'',
                     subcategory = Some '''', note' = Some ''''\<rparr>], autoinc = 1\<rparr>)]\<rparr>"
      "AddPayload ''success'' 1 ''Expense added successfully''"
      "''2024-01-01''" "''2024-01-31''" no_faults]
    add_first
  by (auto simp: between_def no_faults_def or_empty_def)

text \<open>
  C2. When the table exists and the storage layer does not fail, \<^verbatim>\<open>list_expenses\<close>
  returns exactly the records of the table whose date lies between \<^verbatim>\<open>start_date\<close> and
  \<^verbatim>\<open>end_date\<close> in the lexicographic order of strings, each as often as the table holds
  it; when no record lies in the range the result is the empty list.
\<close>

theorem list_expenses_selects_range:
  assumes "find_table ''expenses'' db = Some t"
    and "fs OnConnect = None" and "fs OnExecute = None" and "fs OnFetch = None"
  shows "\<exists>rs. list_expenses fs db start_date end_date = Inr rs
           \<and> mset rs =
               filter_mset (\<lambda>r. start_date \<le> date r \<and> date r \<le> end_date) (mset (rows t))
           \<and> ((\<forall>r \<in> set (rows t). \<not> (start_date \<le> date r \<and> date r \<le> end_date))
                \<longrightarrow> rs = [])"
proof -
  let ?rs = "select_range start_date end_date (rows t)"
  have 1: "list_expenses fs db start_date end_date = Inr ?rs"
    using assms by (rule list_expenses_ok)
  have 2: "mset ?rs =
      filter_mset (\<lambda>r. start_date \<le> date r \<and> date r \<le> end_date) (mset (rows t))"
    by (simp add: mset_select_range between_def)
  have 3: "?rs = []"
    if "\<forall>r \<in> set (rows t). \<not> (start_date \<le> date r \<and> date r \<le> end_date)"
  proof -
    from that have "set ?rs = {}" by (auto simp: set_select_range between_def)
    then show ?thesis by simp
  qed
  from 1 2 3 show ?thesis by blast
qed

theorem list_expenses_selects_range_witness:
  "list_expenses no_faults
     \<lparr>journal = WAL, tables = [(''expenses'',
        \<lparr>rows = [\<lparr>id' = 1, date = ''2024-01-05'', amount = (12.5::real), category = ''food'',
                   subcategory = Some '''', note' = Some ''''\<rparr>,
                 \<lparr>id' = 2, date = ''2024-03-01'', amount = (3::real), category = ''travel'',
                   subcategory = Some '''', note' = Some ''''\<rparr>], autoinc = 2\<rparr>)]\<rparr>
     ''2024-01-01'' ''2024-01-31'' =
   Inr [\<lparr>id' = 1, date = ''2024-01-05'', amount = (12.5::real), category = ''food'',
          subcategory = Some '''', note' = Some ''''\<rparr>]"
  using list_expenses_selects_range [of
     "\<lparr>journal = WAL, tables = [(''expenses'',
        \<lparr>rows = [\<lparr>id' = 1, date = ''2024-01-05'', amount = (12.5::real), category = ''food'',
                   subcategory = Some '''', note' = Some ''''\<rparr>,
                 \<lparr>id' = 2, date = ''2024-03-01'', amount = (3::real), category = ''travel'',
                   subcategory = Some '''', note' = Some ''''\<rparr>], autoinc = 2\<rparr>)]\<rparr>"
     "\<lparr>rows = [\<lparr>id' = 1, date = ''2024-01-05'', amount = (12.5::real), category = ''food'',
                   subcategory = Some '''', note' = Some ''''\<rparr>,
                 \<lparr>id' = 2, date = ''2024-03-01'', amount = (3::real), category = ''travel'',
                   subcategory = Some '''', note' = Some ''''\<rparr>], autoinc = 2\<rparr>"
     no_faults "''2024-01-01''" "''2024-01-31''"]
  by (auto simp: find_table_def no_faults_def mset_single_iff_right)

text \<open>
  C3. When the table exists and the storage layer does not fail, the records that
  \<^verbatim>\<open>list_expenses\<close> returns are in descending order of date, and records of one date
  are in descending order of id; with the ids of the table unique, as SQLite keeps
  them, no two records of one date have the same id.
\<close>

theorem list_expenses_sorted:
  assumes "find_table ''expenses'' db = Some t"
    and "fs OnConnect = None" and "fs OnExecute = None" and "fs OnFetch = None"
  shows "\<exists>rs. list_expenses fs db start_date end_date = Inr rs
           \<and> sorted_wrt (\<lambda>x y. date y < date x \<or> (date x = date y \<and> id' y \<le> id' x)) rs
           \<and> (distinct (map id' (rows t)) \<longrightarrow>
                sorted_wrt (\<lambda>x y. date y < date x \<or> (date x = date y \<and> id' y < id' x)) rs)"
  using list_expenses_ok [OF assms] sorted_select_range strict_sorted_select_range
  by auto

theorem list_expenses_sorted_witness:
  "list_expenses no_faults
     \<lparr>journal = WAL, tables = [(''expenses'',
        \<lparr>rows = [\<lparr>id' = 1, date = ''2024-02-01'', amount = (4::real), category = ''food'',
                   subcategory = Some '''', note' = Some ''''\<rparr>,
                 \<lparr>id' = 2, date = ''2024-02-03'', amount = (3::real), category = ''travel'',
                   subcategory = Some '''', note' = Some ''''\<rparr>,
                 \<lparr>id' = 3, date = ''2024-02-01'', amount = (7::real), category = ''food'',
                   subcategory = Some '''', note' = Some ''''\<rparr>], autoinc = 3\<rparr>)]\<rparr>
     ''2024-02-01'' ''2024-02-03'' =
   Inr [\<lparr>id' = 2, date = ''2024-02-03'', amount = (3::real), category = ''travel'',
          subcategory = Some '''', note' = Some ''''\<rparr>,
        \<lparr>id' = 3, date = ''2024-02-01'', amount = (7::real), category = ''food'',
          subcategory = Some '''', note' = Some ''''\<rparr>,
        \<lparr>id' = 1, date = ''2024-02-01'', amount = (4::real), category = ''food'',
          subcategory = Some '''', note' = Some ''''\<rparr>]"
  using list_expenses_sorted [of
     "\<lparr>journal = WAL, tables = [(''expenses'',
        \<lparr>rows = [\<lparr>id' = 1, date = ''2024-02-01'', amount = (4::real), category = ''food'',
                   subcategory = Some '''', note' = Some ''''\<rparr>,
                 \<lparr>id' = 2, date = ''2024-02-03'', amount = (3::real), category = ''travel'',
                   subcategory = Some '''', note' = Some ''''\<rparr>,
                 \<lparr>id' = 3, date = ''2024-02-01'', amount = (7::real), category = ''food'',
                   subcategory = Some '''', note' = Some ''''\<rparr>], autoinc = 3\<rparr>)]\<rparr>"
     "\<lparr>rows = [\<lparr>id' = 1, date = ''2024-02-01'', amount = (4::real), category = ''food'',
                   subcategory = Some '''', note' = Some ''''\<rparr>,
                 \<lparr>id' = 2, date = ''2024-02-03'', amount = (3::real), category = ''travel'',
                   subcategory = Some '''', note' = Some ''''\<rparr>,
                 \<lparr>id' = 3, date = ''2024-02-01'', amount = (7::real), category = ''food'',
                   subcategory = Some '''', note' = Some ''''\<rparr>], autoinc = 3\<rparr>"
     no_faults "''2024-02-01''" "''2024-02-03''"]
  by (simp add: find_table_def no_faults_def list_expenses_def list_expenses_try_def
      select_range_def between_def)

text \<open>
  C4, as the claim states it: whenever a category is passed, only the records of that
  category are summarized, and the result is empty when there is none. It is not so for
  the category \<^verbatim>\<open>""\<close>: on a table whose one record has the category \<^verbatim>\<open>food\<close>,
  \<^verbatim>\<open>summarize\<close> with the category \<^verbatim>\<open>""\<close> returns the row of \<^verbatim>\<open>food\<close>, not the empty list.
\<close>

theorem summarize_empty_filter_counterexample:
  "summarize sum_list (\<le>) no_faults
     \<lparr>journal = WAL, tables = [(''expenses'',
        \<lparr>rows = [\<lparr>id' = 1, date = ''2024-01-05'', amount = (10::real), category = ''food'',
                   subcategory = Some '''', note' = Some ''''\<rparr>], autoinc = 1\<rparr>)]\<rparr>
     ''2024-01-01'' ''2024-01-31'' (Some '''') =
   Inr [\<lparr>category' = ''food'', total_amount = (10::real), count' = 1\<rparr>]
   \<and> summarize sum_list (\<le>) no_faults
     \<lparr>journal = WAL, tables = [(''expenses'',
        \<lparr>rows = [\<lparr>id' = 1, date = ''2024-01-05'', amount = (10::real), category = ''food'',
                   subcategory = Some '''', note' = Some ''''\<rparr>], autoinc = 1\<rparr>)]\<rparr>
     ''2024-01-01'' ''2024-01-31'' (Some '''') \<noteq> (Inr [] :: error_payload + real summary list)
   \<and> ''food'' \<noteq> ''''"
  by (simp add: find_table_def no_faults_def summarize_def summarize_try_def
      select_summary_def group_by_category_def aggregate_def sort_by_def
      where_clause_def between_def)

text \<open>
  C4, amended. When the table exists and the storage layer does not fail, \<^verbatim>\<open>summarize\<close>
  returns one row for each category that occurs among the records of the table whose
  date is lexically within the range and, when a category other than \<^verbatim>\<open>""\<close> is passed,
  whose category is that one; no category has two rows. The row of a category holds
  what \<^verbatim>\<open>SUM\<close> gives for the amounts of those records of that category, taken in the
  order of the table, and their number. The rows are in descending order of the total,
  for every order of the totals that is total and transitive. When no record matches,
  the result is the empty list.
\<close>

theorem summarize_groups:
  assumes "find_table ''expenses'' db = Some t"
    and "fs OnConnect = None" and "fs OnExecute = None" and "fs OnFetch = None"
    and "\<forall>x y. le x y \<or> le y x" and "\<forall>x y z. le x y \<and> le y z \<longrightarrow> le x z"
  shows "(\<forall>r. where_clause start_date end_date cat r \<longleftrightarrow>
            start_date \<le> date r \<and> date r \<le> end_date
            \<and> (\<forall>c. cat = Some c \<and> c \<noteq> '''' \<longrightarrow> category r = c))
       \<and> (\<exists>gs. summarize sum_of le fs db start_date end_date cat = Inr gs
            \<and> distinct (map category' gs)
            \<and> category' ` set gs =
                category ` {r \<in> set (rows t). where_clause start_date end_date cat r}
            \<and> (\<forall>g \<in> set gs.
                  total_amount g =
                    sum_of (map amount (filter (\<lambda>r. where_clause start_date end_date cat r
                                                 \<and> category r = category' g) (rows t)))
                  \<and> count' g =
                    length (filter (\<lambda>r. where_clause start_date end_date cat r
                                       \<and> category r = category' g) (rows t)))
            \<and> sorted_wrt (\<lambda>x y. le (total_amount y) (total_amount x)) gs
            \<and> ((\<forall>r \<in> set (rows t). \<not> where_clause start_date end_date cat r) \<longrightarrow> gs = []))"
proof (intro conjI allI)
  fix r
  show "where_clause start_date end_date cat r \<longleftrightarrow>
            start_date \<le> date r \<and> date r \<le> end_date
            \<and> (\<forall>c. cat = Some c \<and> c \<noteq> '''' \<longrightarrow> category r = c)"
    by (rule where_clause_iff)
next
  let ?gs = "select_summary sum_of le start_date end_date cat (rows t)"
  have 1: "summarize sum_of le fs db start_date end_date cat = Inr ?gs"
    using assms(1-4) by (rule summarize_ok)
  have 2: "?gs = []" if "\<forall>r \<in> set (rows t). \<not> where_clause start_date end_date cat r"
  proof -
    from that have "category' ` set ?gs = {}"
      unfolding select_summary_props(2) by simp
    then show ?thesis by simp
  qed
  show "\<exists>gs. summarize sum_of le fs db start_date end_date cat = Inr gs
            \<and> distinct (map category' gs)
            \<and> category' ` set gs =
                category ` {r \<in> set (rows t). where_clause start_date end_date cat r}
            \<and> (\<forall>g \<in> set gs.
                  total_amount g =
                    sum_of (map amount (filter (\<lambda>r. where_clause start_date end_date cat r
                                                 \<and> category r = category' g) (rows t)))
                  \<and> count' g =
                    length (filter (\<lambda>r. where_clause start_date end_date cat r
                                       \<and> category r = category' g) (rows t)))
            \<and> sorted_wrt (\<lambda>x y. le (total_amount y) (total_amount x)) gs
            \<and> ((\<forall>r \<in> set (rows t). \<not> where_clause start_date end_date cat r) \<longrightarrow> gs = [])"
  proof (intro exI[of _ ?gs] conjI ballI impI)
    show "summarize sum_of le fs db start_date end_date cat = Inr ?gs" by (rule 1)
    show "distinct (map category' ?gs)" by (rule select_summary_props(1))
    show "category' ` set ?gs =
        category ` {r \<in> set (rows t). where_clause start_date end_date cat r}"
      by (rule select_summary_props(2))
    show "sorted_wrt (\<lambda>x y. le (total_amount y) (total_amount x)) ?gs"
      using assms(5,6) by (rule sorted_select_summary)
  next
    fix g assume "g \<in> set ?gs"
    then show "total_amount g =
        sum_of (map amount (filter (\<lambda>r. where_clause start_date end_date cat r
                                     \<and> category r = category' g) (rows t)))"
      and "count' g =
        length (filter (\<lambda>r. where_clause start_date end_date cat r
                           \<and> category r = category' g) (rows t))"
      by (rule select_summary_props(3), rule select_summary_props(4))
  next
    assume "\<forall>r \<in> set (rows t). \<not> where_clause start_date end_date cat r"
    then show "?gs = []" by (rule 2)
  qed
qed

theorem summarize_groups_witness:
  "summarize sum_list (\<le>) no_faults
     \<lparr>journal = WAL, tables = [(''expenses'',
        \<lparr>rows = [\<lparr>id' = 1, date = ''2024-01-05'', amount = (10::real), category = ''food'',
                   subcategory = Some '''', note' = Some ''''\<rparr>,
                 \<lparr>id' = 2, date = ''2024-01-07'', amount = 15, category = ''travel'',
                   subcategory = Some '''', note' = Some ''''\<rparr>,
                 \<lparr>id' = 3, date = ''2024-01-09'', amount = 5, category = ''food'',
                   subcategory = Some '''', note' = Some ''''\<rparr>,
                 \<lparr>id' = 4, date = ''2024-03-01'', amount = 99, category = ''food'',
                   subcategory = Some '''', note' = Some ''''\<rparr>,
                 \<lparr>id' = 5, date = ''2024-01-11'', amount = 20, category = ''misc'',
                   subcategory = Some '''', note' = Some ''''\<rparr>], autoinc = 5\<rparr>)]\<rparr>
     ''2024-01-01'' ''2024-01-31'' None =
   Inr [\<lparr>category' = ''misc'', total_amount = (20::real), count' = 1\<rparr>,
        \<lparr>category' = ''travel'', total_amount = 15, count' = 1\<rparr>,
        \<lparr>category' = ''food'', total_amount = 15, count' = 2\<rparr>]"
proof -
  have tot: "\<forall>x y :: real. x \<le> y \<or> y \<le> x" by (simp add: linear)
  have tr: "\<forall>x y z :: real. x \<le> y \<and> y \<le> z \<longrightarrow> x \<le> z" by auto
  have tb: "find_table ''expenses''
     \<lparr>journal = WAL, tables = [(''expenses'',
        \<lparr>rows = [\<lparr>id' = 1, date = ''2024-01-05'', amount = (10::real), category = ''food'',
                   subcategory = Some '''', note' = Some ''''\<rparr>,
                 \<lparr>id' = 2, date = ''2024-01-07'', amount = 15, category = ''travel'',
                   subcategory = Some '''', note' = Some ''''\<rparr>,
                 \<lparr>id' = 3, date = ''2024-01-09'', amount = 5, category = ''food'',
                   subcategory = Some '''', note' = Some ''''\<rparr>,
                 \<lparr>id' = 4, date = ''2024-03-01'', amount = 99, category = ''food'',
                   subcategory = Some '''', note' = Some ''''\<rparr>,
                 \<lparr>id' = 5, date = ''2024-01-11'', amount = 20, category = ''misc'',
                   subcategory = Some '''', note' = Some ''''\<rparr>], autoinc = 5\<rparr>)]\<rparr> =
     Some \<lparr>rows = [\<lparr>id' = 1, date = ''2024-01-05'', amount = (10::real), category = ''food'',
                   subcategory = Some '''', note' = Some ''''\<rparr>,
                 \<lparr>id' = 2, date = ''2024-01-07'', amount = 15, category = ''travel'',
                   subcategory = Some '''', note' = Some ''''\<rparr>,
                 \<lparr>id' = 3, date = ''2024-01-09'', amount = 5, category = ''food'',
                   subcategory = Some '''', note' = Some ''''\<rparr>,
                 \<lparr>id' = 4, date = ''2024-03-01'', amount = 99, category = ''food'',
                   subcategory = Some '''', note' = Some ''''\<rparr>,
                 \<lparr>id' = 5, date = ''2024-01-11'', amount = 20, category = ''misc'',
                   subcategory = Some '''', note' = Some ''''\<rparr>], autoinc = 5\<rparr>"
    by (simp add: find_table_def)
  have nf: "no_faults OnConnect = None" "no_faults OnExecute = None" "no_faults OnFetch = None"
    by (simp_all add: no_faults_def)
  from summarize_groups [OF tb nf tot tr, of "''2024-01-01''" "''2024-01-31''" None sum_list]
  show ?thesis
    by (simp add: find_table_def no_faults_def summarize_def summarize_try_def
        select_summary_def group_by_category_def aggregate_def sort_by_def
        where_clause_def between_def)
qed

text \<open>
  C5. Let the texts of the storage layer's exceptions be non-empty. When the
  \<^verbatim>\<open>try\<close> block of \<^verbatim>\<open>add_expense\<close>, \<^verbatim>\<open>list_expenses\<close> or \<^verbatim>\<open>summarize\<close> raises with the text
  \<open>msg\<close>, the tool returns the payload with status \<^verbatim>\<open>error\<close> and message \<open>msg\<close>, which is
  not empty, and \<^verbatim>\<open>add_expense\<close> leaves the database as it was. The block raises, with
  the text of the storage layer, when the connection fails, when the statement fails,
  when fetching fails and, for \<^verbatim>\<open>add_expense\<close>, when the commit fails after a
  successful insert.
\<close>

theorem storage_failure_payload:
  assumes "\<forall>p m. fs p = Some m \<longrightarrow> m \<noteq> ''''"
  shows "(add_expense_try fs db d a c sub n = Inl msg \<longrightarrow>
            add_expense fs db d a c sub n = (db, Inl (ErrorPayload ''error'' msg)) \<and> msg \<noteq> '''')
       \<and> (list_expenses_try fs db s e = Inl msg \<longrightarrow>
            list_expenses fs db s e = Inl (ErrorPayload ''error'' msg) \<and> msg \<noteq> '''')
       \<and> (summarize_try sum_of le fs db s e cat = Inl msg \<longrightarrow>
            summarize sum_of le fs db s e cat = Inl (ErrorPayload ''error'' msg) \<and> msg \<noteq> '''')
       \<and> (fs OnConnect = Some m \<or> (fs OnConnect = None \<and> fs OnExecute = Some m) \<longrightarrow>
            add_expense_try fs db d a c sub n = Inl m
            \<and> list_expenses_try fs db s e = Inl m
            \<and> summarize_try sum_of le fs db s e cat = Inl m)
       \<and> (fs OnConnect = None \<and> fs OnExecute = None \<and> find_table ''expenses'' db = Some t
            \<and> fs OnFetch = Some m \<longrightarrow>
            list_expenses_try fs db s e = Inl m \<and> summarize_try sum_of le fs db s e cat = Inl m)
       \<and> (fs OnConnect = None \<and> fs OnExecute = None \<and> find_table ''expenses'' db = Some t
            \<and> max (autoinc t) (max_rowid (rows t)) < MAX_ROWID \<and> fs OnCommit = Some m \<longrightarrow>
            add_expense_try fs db d a c sub n = Inl m)"
proof (intro conjI impI)
  assume "add_expense_try fs db d a c sub n = Inl msg"
  then show "add_expense fs db d a c sub n = (db, Inl (ErrorPayload ''error'' msg))"
    and "msg \<noteq> ''''"
    using assms add_expense_try_InlD by (simp_all add: add_expense_def error_of_def)
next
  assume "list_expenses_try fs db s e = Inl msg"
  then show "list_expenses fs db s e = Inl (ErrorPayload ''error'' msg)" and "msg \<noteq> ''''"
    using assms list_expenses_try_InlD by (simp_all add: list_expenses_def error_of_def)
next
  assume "summarize_try sum_of le fs db s e cat = Inl msg"
  then show "summarize sum_of le fs db s e cat = Inl (ErrorPayload ''error'' msg)" and "msg \<noteq> ''''"
    using assms summarize_try_InlD by (simp_all add: summarize_def error_of_def)
next
  assume h: "fs OnConnect = Some m \<or> (fs OnConnect = None \<and> fs OnExecute = Some m)"
  then show "add_expense_try fs db d a c sub n = Inl m"
    by (auto simp: add_expense_try_def)
  from h show "list_expenses_try fs db s e = Inl m"
    by (auto simp: list_expenses_try_def)
  from h show "summarize_try sum_of le fs db s e cat = Inl m"
    by (auto simp: summarize_try_def)
next
  assume h: "fs OnConnect = None \<and> fs OnExecute = None \<and> find_table ''expenses'' db = Some t
            \<and> fs OnFetch = Some m"
  then show "list_expenses_try fs db s e = Inl m"
    by (simp add: list_expenses_try_def)
  from h show "summarize_try sum_of le fs db s e cat = Inl m"
    by (simp add: summarize_try_def)
next
  assume "fs OnConnect = None \<and> fs OnExecute = None \<and> find_table ''expenses'' db = Some t
            \<and> max (autoinc t) (max_rowid (rows t)) < MAX_ROWID \<and> fs OnCommit = Some m"
  then show "add_expense_try fs db d a c sub n = Inl m"
    by (auto simp: add_expense_try_def insert_row_def Let_def)
qed

theorem storage_failure_payload_witness:
  "add_expense (\<lambda>p. if p = OnCommit then Some ''disk I/O error'' else None)
     \<lparr>journal = WAL, tables = [(''expenses'', \<lparr>rows = [], autoinc = 0\<rparr>)]\<rparr>
     ''2024-01-05'' (12.5::real) ''food'' None None =
   (\<lparr>journal = WAL, tables = [(''expenses'', \<lparr>rows = [], autoinc = 0\<rparr>)]\<rparr>,
    Inl (ErrorPayload ''error'' ''disk I/O error''))"
  using storage_failure_payload [where
      fs = "\<lambda>p. if p = OnCommit then Some ''disk I/O error'' else None"
      and db = "\<lparr>journal = WAL, tables = [(''expenses'', \<lparr>rows = [], autoinc = 0\<rparr>)]\<rparr>"
      and d = "''2024-01-05''" and a = "12.5::real" and c = "''food''" and sub = None
      and n = None and msg = "''disk I/O error''" and m = "''disk I/O error''"
      and t = "\<lparr>rows = [], autoinc = 0\<rparr>"
      and s = "''2024-01-01''" and e = "''2024-01-31''" and cat = None
      and sum_of = "sum_list :: real list \<Rightarrow> real" and le = "(\<le>)"]
  by (simp add: add_expense_try_def find_table_def insert_row_def max_rowid_def MAX_ROWID_def
      Let_def or_empty_def)

text \<open>
  C6. A successful \<^verbatim>\<open>add_expense\<close> appends one record to the table and gives it, and
  returns, an id that is greater than the id of every record of the table and than
  every id the table has held. Whatever calls follow, with whatever failures of the
  storage layer, the records that were in the table stay in it, unchanged and in their
  places; the records that came after them were appended in strictly increasing order
  of id, each id greater than those of the records before; so ids that were unique
  stay unique.
\<close>

theorem ids_unique_monotonic_immutable:
  "(add_expense fs db d a c sub n = (db', Inr p) \<longrightarrow>
      (\<exists>t. find_table ''expenses'' db = Some t
         \<and> find_table ''expenses'' db' =
             Some \<lparr>rows = rows t @ [\<lparr>id' = add_id p, date = d, amount = a, category = c,
                      subcategory = Some (or_empty sub), note' = Some (or_empty n)\<rparr>],
                   autoinc = add_id p\<rparr>
         \<and> (\<forall>r \<in> set (rows t). id' r < add_id p) \<and> autoinc t < add_id p))
   \<and> (find_table ''expenses'' db = Some t \<longrightarrow>
      (\<exists>t' new. find_table ''expenses'' (run cs db) = Some t'
         \<and> rows t' = rows t @ new
         \<and> sorted_wrt (<) (map id' new)
         \<and> (\<forall>r \<in> set new. \<forall>r0 \<in> set (rows t). id' r0 < id' r)
         \<and> (distinct (map id' (rows t)) \<longrightarrow> distinct (map id' (rows t')))))"
proof (intro conjI impI)
  assume "add_expense fs db d a c sub n = (db', Inr p)"
  then show "\<exists>t. find_table ''expenses'' db = Some t
         \<and> find_table ''expenses'' db' =
             Some \<lparr>rows = rows t @ [\<lparr>id' = add_id p, date = d, amount = a, category = c,
                      subcategory = Some (or_empty sub), note' = Some (or_empty n)\<rparr>],
                   autoinc = add_id p\<rparr>
         \<and> (\<forall>r \<in> set (rows t). id' r < add_id p) \<and> autoinc t < add_id p"
    by (rule add_expense_appends)
next
  assume "find_table ''expenses'' db = Some t"
  from run_extends [OF this, of cs]
  obtain t' new where 1: "find_table ''expenses'' (run cs db) = Some t'"
    and 2: "rows t' = rows t @ new" and 3: "sorted_wrt (<) (map id' new)"
    and 4: "\<forall>r \<in> set new. \<forall>r0 \<in> set (rows t). id' r0 < id' r"
    by blast
  have 5: "distinct (map id' (rows t'))" if "distinct (map id' (rows t))"
    unfolding 2 using that 3 4 by (rule distinct_ids_append)
  show "\<exists>t' new. find_table ''expenses'' (run cs db) = Some t'
         \<and> rows t' = rows t @ new
         \<and> sorted_wrt (<) (map id' new)
         \<and> (\<forall>r \<in> set new. \<forall>r0 \<in> set (rows t). id' r0 < id' r)
         \<and> (distinct (map id' (rows t)) \<longrightarrow> distinct (map id' (rows t')))"
    using 1 2 3 4 5 by (intro exI[of _ t'] exI[of _ new]) simp
qed

theorem ids_unique_monotonic_immutable_witness:
  "add_expense no_faults
     \<lparr>journal = WAL, tables = [(''expenses'', \<lparr>rows = [], autoinc = 0\<rparr>)]\<rparr>
     ''2024-01-05'' (12.5::real) ''food'' None None =
   (\<lparr>journal = WAL, tables = [(''expenses'',
        \<lparr>rows = [\<lparr>id' = 1, date = ''2024-01-05'', amount = (12.5::real), category = ''food'',
                   subcategory = Some '''', note' = Some ''''\<rparr>], autoinc = 1\<rparr>)]\<rparr>,
    Inr (AddPayload ''success'' 1 ''Expense added successfully''))
   \<and> find_table ''expenses''
       (run [(no_faults, AddExpense ''2024-01-05'' (12.5::real) ''food'' None None),
             (no_faults, ListExpenses ''2024-01-01'' ''2024-01-31''),
             (no_faults, AddExpense ''2024-01-02'' (3::real) ''travel'' (Some ''bus'') None)]
          \<lparr>journal = WAL, tables = [(''expenses'', \<lparr>rows = [], autoinc = 0\<rparr>)]\<rparr>) =
     Some \<lparr>rows = [\<lparr>id' = 1, date = ''2024-01-05'', amount = (12.5::real), category = ''food'',
                     subcategory = Some '''', note' = Some ''''\<rparr>,
                   \<lparr>id' = 2, date = ''2024-01-02'', amount = (3::real), category = ''travel'',
                     subcategory = Some ''bus'', note' = Some ''''\<rparr>], autoinc = 2\<rparr>"
  using ids_unique_monotonic_immutable [where fs = no_faults
      and db = "\<lparr>journal = WAL, tables = [(''expenses'', \<lparr>rows = [], autoinc = 0\<rparr>)]\<rparr>"
      and d = "''2024-01-05''" and a = "12.5::real" and c = "''food''" and sub = None and n = None
      and db' = "\<lparr>journal = WAL, tables = [(''expenses'',
        \<lparr>rows = [\<lparr>id' = 1, date = ''2024-01-05'', amount = (12.5::real), category = ''food'',
                   subcategory = Some '''', note' = Some ''''\<rparr>], autoinc = 1\<rparr>)]\<rparr>"
      and p = "AddPayload ''success'' 1 ''Expense added successfully''"
      and t = "\<lparr>rows = [], autoinc = 0\<rparr>"
      and cs = "[(no_faults, AddExpense ''2024-01-05'' (12.5::real) ''food'' None None),
             (no_faults, ListExpenses ''2024-01-01'' ''2024-01-31''),
             (no_faults, AddExpense ''2024-01-02'' (3::real) ''travel'' (Some ''bus'') None)]"]
  by (simp add: add_expense_def add_expense_try_def no_faults_def find_table_def insert_row_def
      max_rowid_def MAX_ROWID_def or_empty_def store_table_def Let_def)

text \<open>
  C7. From every database whose tables have distinct names, \<open>n \<ge> 1\<close> calls of
  \<^verbatim>\<open>init_db\<close> in a row, with a storage layer that does not fail, all succeed and leave
  what the first call left: one call more changes nothing. The result has exactly one
  table named \<^verbatim>\<open>expenses\<close> and its journal is the write-ahead log; every table that
  existed, with its rows, is as it was; a table that had to be created is empty. The
  columns of the table are those of the type of its rows.
\<close>

theorem init_db_idempotent:
  assumes "distinct (map fst (tables db))" and "0 < n"
  shows "\<exists>db'. init_db_times n no_faults db = Inr db'
           \<and> init_db no_faults db = Inr db'
           \<and> init_db no_faults db' = Inr db'
           \<and> length (filter (\<lambda>nt. fst nt = ''expenses'') (tables db')) = 1
           \<and> journal db' = WAL
           \<and> (\<forall>name t. find_table name db = Some t \<longrightarrow> find_table name db' = Some t)
           \<and> (find_table ''expenses'' db = None \<longrightarrow>
                find_table ''expenses'' db' = Some \<lparr>rows = [], autoinc = 0\<rparr>)"
proof -
  let ?db' = "create_table_if_not_exists ''expenses'' (db\<lparr>journal := WAL\<rparr>)"
  from \<open>0 < n\<close> obtain k where n: "n = Suc k" by (cases n) auto
  have 1: "init_db_times n no_faults db = Inr ?db'"
    unfolding n by (rule init_db_times_Suc)
  have 2: "init_db no_faults db = Inr ?db'" by (rule init_db_no_faults)
  have 3: "init_db no_faults ?db' = Inr ?db'" by (rule init_db_again)
  have 4: "length (filter (\<lambda>nt. fst nt = ''expenses'') (tables ?db')) = 1"
    using assms(1) by (intro count_after_create) simp
  have 5: "journal ?db' = WAL" by (simp add: create_table_if_not_exists_def)
  have 6: "find_table name ?db' = Some t" if "find_table name db = Some t" for name t
    using that by (intro find_table_create_kept) (simp add: find_table_def)
  have 7: "find_table ''expenses'' ?db' = Some \<lparr>rows = [], autoinc = 0\<rparr>"
    if "find_table ''expenses'' db = None"
    using that by (intro find_table_create_new) (simp add: find_table_def)
  show ?thesis
    by (intro exI[of _ ?db']) (simp add: 1 2 3 4 5 6 7)
qed

theorem init_db_idempotent_witness:
  "init_db_times 3 no_faults (\<lparr>journal = DELETE, tables = []\<rparr> :: real database) =
     Inr \<lparr>journal = WAL, tables = [(''expenses'', \<lparr>rows = [], autoinc = 0\<rparr>)]\<rparr>"
  using init_db_idempotent [of "\<lparr>journal = DELETE, tables = []\<rparr> :: real database" 3]
  by (auto simp: init_empty)

text \<open>
  C8. When the file of categories is absent, the resource is \<^verbatim>\<open>json.dumps\<close> with
  \<^verbatim>\<open>indent=2\<close> of the dictionary with the one key \<^verbatim>\<open>categories\<close> and the list of the
  eleven built-in names: the text below, one name to a line.
\<close>

theorem categories_fallback:
  \<open>categories Absent =
     ''{\<newline>  "categories": [\<newline>    "food",\<newline>    "transport",\<newline>    "housing",\<newline>    "utilities",\<newline>    "health",\<newline>    "education",\<newline>    "shopping",\<newline>    "entertainment",\<newline>    "travel",\<newline>    "business",\<newline>    "misc"\<newline>  ]\<newline>}''
   \<and> categories Absent =
       dumps (Some 2) (JObject [(''categories'', JArray (map JString
         [''food'', ''transport'', ''housing'', ''utilities'', ''health'', ''education'',
          ''shopping'', ''entertainment'', ''travel'', ''business'', ''misc'']))])
   \<and> length [''food'', ''transport'', ''housing'', ''utilities'', ''health'', ''education'',
          ''shopping'', ''entertainment'', ''travel'', ''business'', ''misc''] = 11\<close>
proof (intro conjI)
  show \<open>categories Absent =
     ''{\<newline>  "categories": [\<newline>    "food",\<newline>    "transport",\<newline>    "housing",\<newline>    "utilities",\<newline>    "health",\<newline>    "education",\<newline>    "shopping",\<newline>    "entertainment",\<newline>    "travel",\<newline>    "business",\<newline>    "misc"\<newline>  ]\<newline>}''\<close>
    by code_simp
  show "categories Absent =
       dumps (Some 2) (JObject [(''categories'', JArray (map JString
         [''food'', ''transport'', ''housing'', ''utilities'', ''health'', ''education'',
          ''shopping'', ''entertainment'', ''travel'', ''business'', ''misc'']))])"
    by (simp only: categories_def config_file.case)
  show "length [''food'', ''transport'', ''housing'', ''utilities'', ''health'', ''education'',
          ''shopping'', ''entertainment'', ''travel'', ''business'', ''misc''] = 11"
    by simp
qed




text \<open>
  C10. \<^verbatim>\<open>summarize\<close> with the category \<^verbatim>\<open>""\<close> is \<^verbatim>\<open>summarize\<close> without a category.
  When the table exists and the storage layer does not fail, its result has a row for
  every category that occurs among the records within the date range, whatever that
  category is, and the row holds \<^verbatim>\<open>SUM\<close> of the amounts and the number of all the
  records of that category within the range: the records are not restricted to those
  whose category is the empty string.
\<close>

theorem summarize_empty_category:
  "summarize sum_of le fs db start_date end_date (Some '''') =
     summarize sum_of le fs db start_date end_date None
   \<and> (find_table ''expenses'' db = Some t
        \<and> fs OnConnect = None \<and> fs OnExecute = None \<and> fs OnFetch = None \<longrightarrow>
      (\<exists>gs. summarize sum_of le fs db start_date end_date (Some '''') = Inr gs
         \<and> category' ` set gs =
             category ` {r \<in> set (rows t). start_date \<le> date r \<and> date r \<le> end_date}
         \<and> (\<forall>g \<in> set gs.
               total_amount g =
                 sum_of (map amount (filter (\<lambda>r. start_date \<le> date r \<and> date r \<le> end_date
                                              \<and> category r = category' g) (rows t)))
               \<and> count' g =
                 length (filter (\<lambda>r. start_date \<le> date r \<and> date r \<le> end_date
                                    \<and> category r = category' g) (rows t)))))"
proof (intro conjI impI)
  show "summarize sum_of le fs db start_date end_date (Some '''') =
     summarize sum_of le fs db start_date end_date None"
    by (simp add: summarize_def summarize_try_empty)
next
  assume h: "find_table ''expenses'' db = Some t
        \<and> fs OnConnect = None \<and> fs OnExecute = None \<and> fs OnFetch = None"
  let ?gs = "select_summary sum_of le start_date end_date (Some '''') (rows t)"
  from h have 1: "summarize sum_of le fs db start_date end_date (Some '''') = Inr ?gs"
    by (simp add: summarize_ok)
  have 2: "category' ` set ?gs =
      category ` {r \<in> set (rows t). start_date \<le> date r \<and> date r \<le> end_date}"
    unfolding select_summary_props(2) by (simp add: where_clause_empty_iff)
  have 3: "total_amount g =
      sum_of (map amount (filter (\<lambda>r. start_date \<le> date r \<and> date r \<le> end_date
                                   \<and> category r = category' g) (rows t)))"
    and 4: "count' g =
      length (filter (\<lambda>r. start_date \<le> date r \<and> date r \<le> end_date
                         \<and> category r = category' g) (rows t))"
    if "g \<in> set ?gs" for g
    using select_summary_props(3) [OF that] select_summary_props(4) [OF that]
    by (simp_all add: where_clause_empty_iff conj_assoc)
  show "\<exists>gs. summarize sum_of le fs db start_date end_date (Some '''') = Inr gs
         \<and> category' ` set gs =
             category ` {r \<in> set (rows t). start_date \<le> date r \<and> date r \<le> end_date}
         \<and> (\<forall>g \<in> set gs.
               total_amount g =
                 sum_of (map amount (filter (\<lambda>r. start_date \<le> date r \<and> date r \<le> end_date
                                              \<and> category r = category' g) (rows t)))
               \<and> count' g =
                 length (filter (\<lambda>r. start_date \<le> date r \<and> date r \<le> end_date
                                    \<and> category r = category' g) (rows t)))"
    using 1 2 3 4 by (intro exI[of _ ?gs]) simp
qed

theorem summarize_empty_category_witness:
  "summarize sum_list (\<le>) no_faults
     \<lparr>journal = WAL, tables = [(''expenses'',
        \<lparr>rows = [\<lparr>id' = 1, date = ''2024-01-05'', amount = (10::real), category = ''food'',
                   subcategory = Some '''', note' = Some ''''\<rparr>,
                 \<lparr>id' = 2, date = ''2024-01-07'', amount = 4, category = '''',
                   subcategory = Some '''', note' = Some ''''\<rparr>,
                 \<lparr>id' = 3, date = ''2024-03-09'', amount = 7, category = ''travel'',
                   subcategory = Some '''', note' = Some ''''\<rparr>], autoinc = 3\<rparr>)]\<rparr>
     ''2024-01-01'' ''2024-01-31'' (Some '''') =
   Inr [\<lparr>category' = ''food'', total_amount = (10::real), count' = 1\<rparr>,
        \<lparr>category' = '''', total_amount = 4, count' = 1\<rparr>]"
  using summarize_empty_category [where sum_of = "sum_list :: real list \<Rightarrow> real" and le = "(\<le>)"
     and fs = no_faults
     and db = "\<lparr>journal = WAL, tables = [(''expenses'',
        \<lparr>rows = [\<lparr>id' = 1, date = ''2024-01-05'', amount = (10::real), category = ''food'',
                   subcategory = Some '''', note' = Some ''''\<rparr>,
                 \<lparr>id' = 2, date = ''2024-01-07'', amount = 4, category = '''',
                   subcategory = Some '''', note' = Some ''''\<rparr>,
                 \<lparr>id' = 3, date = ''2024-03-09'', amount = 7, category = ''travel'',
                   subcategory = Some '''', note' = Some ''''\<rparr>], autoinc = 3\<rparr>)]\<rparr>"
     and t = "\<lparr>rows = [\<lparr>id' = 1, date = ''2024-01-05'', amount = (10::real), category = ''food'',
                   subcategory = Some '''', note' = Some ''''\<rparr>,
                 \<lparr>id' = 2, date = ''2024-01-07'', amount = 4, category = '''',
                   subcategory = Some '''', note' = Some ''''\<rparr>,
                 \<lparr>id' = 3, date = ''2024-03-09'', amount = 7, category = ''travel'',
                   subcategory = Some '''', note' = Some ''''\<rparr>], autoinc = 3\<rparr>"
     and start_date = "''2024-01-01''" and end_date = "''2024-01-31''"]
  by (simp add: find_table_def no_faults_def summarize_def summarize_try_def
      select_summary_def group_by_category_def aggregate_def sort_by_def
      where_clause_def between_def)

end
